theory Spec2Isabelle
  imports Complex_Main "HOL-Library.Sublist"
begin

section \<open>Python strings\<close>

text \<open>
  A Python \<open>str\<close> is modelled as a \<open>string\<close> whose characters are code points below 256.
  \<open>is_space\<close> is \<open>str.isspace\<close> on that range; it is also the class \<open>\s\<close> of the \<open>re\<close> module
  for \<open>str\<close> patterns.
\<close>

definition NL :: char where "NL = CHR 0x0A"
definition TAB :: char where "TAB = CHR 0x09"
definition DQ :: char where "DQ = CHR 0x22"

definition is_space :: "char \<Rightarrow> bool" where
  "is_space c = (let n = (of_char c :: nat) in
     (9 \<le> n \<and> n \<le> 13) \<or> (28 \<le> n \<and> n \<le> 32) \<or> n = 133 \<or> n = 160)"

definition lstrip :: "string \<Rightarrow> string" where
  "lstrip s = dropWhile is_space s"

definition rstrip :: "string \<Rightarrow> string" where
  "rstrip s = rev (dropWhile is_space (rev s))"

definition strip :: "string \<Rightarrow> string" where
  "strip s = rstrip (lstrip s)"

definition strip_chars :: "string \<Rightarrow> string \<Rightarrow> string" where
  \<comment> \<open>\<open>s.strip(chars)\<close>\<close>
  "strip_chars chars s =
     rev (dropWhile (\<lambda>c. c \<in> set chars) (rev (dropWhile (\<lambda>c. c \<in> set chars) s)))"

definition startswith :: "string \<Rightarrow> string \<Rightarrow> bool" where
  \<comment> \<open>\<open>s.startswith(p)\<close>\<close>
  "startswith p s = (take (length p) s = p)"

fun contains :: "string \<Rightarrow> string \<Rightarrow> bool" where
  \<comment> \<open>\<open>p in s\<close>\<close>
  "contains p [] = (p = [])"
| "contains p (c # cs) = (startswith p (c # cs) \<or> contains p cs)"

fun str_of_nat :: "nat \<Rightarrow> string" where
  "str_of_nat n =
     (if n < 10 then [char_of (48 + n)]
      else str_of_nat (n div 10) @ [char_of (48 + n mod 10)])"

declare str_of_nat.simps [simp del]

function replace :: "string \<Rightarrow> string \<Rightarrow> string \<Rightarrow> string" where
  \<comment> \<open>\<open>s.replace(old, new)\<close>: leftmost, non-overlapping occurrences\<close>
  "replace old new [] = (if old = [] then new else [])"
| "replace old new (c # cs) =
     (if old = [] then new @ c # replace old new cs
      else if startswith old (c # cs) then new @ replace old new (drop (length old) (c # cs))
      else c # replace old new cs)"
  by pat_completeness auto
termination
  by (relation "measure (\<lambda>(old, new, s). length s)") auto

fun split_on :: "char \<Rightarrow> string \<Rightarrow> string list" where
  \<comment> \<open>\<open>s.split(sep)\<close> for a one-character separator: always at least one piece\<close>
  "split_on sep [] = [[]]"
| "split_on sep (c # cs) =
     (if c = sep then [] # split_on sep cs
      else (case split_on sep cs of
              [] \<Rightarrow> [[c]]
            | l # ls \<Rightarrow> (c # l) # ls))"

fun join :: "string \<Rightarrow> string list \<Rightarrow> string" where
  \<comment> \<open>\<open>sep.join(pieces)\<close>\<close>
  "join sep [] = []"
| "join sep [l] = l"
| "join sep (l # m # ls) = l @ sep @ join sep (m # ls)"

section \<open>Python values\<close>

text \<open>
  The values \<open>yaml.safe_load\<close> builds: scalars, sequences and mappings. A float is kept as
  the rational number it stands for; timestamps and binary scalars are left out. Mapping
  keys are strings, as every key the tools look up is. A mapping is an association list;
  \<open>dict_get\<close> reads the first binding of a key and \<open>dict_keys\<close> lists each key once.
\<close>

datatype pyval =
    PNone
  | PBool bool
  | PInt int
  | PFloat rat
  | PStr string
  | PList "pyval list"
  | PDict "(string \<times> pyval) list"

type_synonym pydict = "(string \<times> pyval) list"

datatype pyerr = AttributeError | TypeError | KeyError

definition dict_get :: "pydict \<Rightarrow> string \<Rightarrow> pyval option" where
  "dict_get d k = map_of d k"

definition dict_has :: "string \<Rightarrow> pydict \<Rightarrow> bool" where
  \<comment> \<open>\<open>k in d\<close>\<close>
  "dict_has k d = (map_of d k \<noteq> None)"

definition dict_get_default :: "pydict \<Rightarrow> string \<Rightarrow> pyval \<Rightarrow> pyval" where
  \<comment> \<open>\<open>d.get(k, default)\<close>\<close>
  "dict_get_default d k dflt = (case map_of d k of None \<Rightarrow> dflt | Some v \<Rightarrow> v)"

definition dict_keys :: "pydict \<Rightarrow> string list" where
  "dict_keys d = remdups (map fst d)"

fun dict_set :: "string \<Rightarrow> pyval \<Rightarrow> pydict \<Rightarrow> pydict" where
  \<comment> \<open>\<open>d[k] = v\<close>: an existing key keeps its place\<close>
  "dict_set k v [] = [(k, v)]"
| "dict_set k v ((k', v') # d) = (if k = k' then (k, v) # d else (k', v') # dict_set k v d)"

fun truthy :: "pyval \<Rightarrow> bool" where
  \<comment> \<open>\<open>bool(v)\<close>, as in \<open>if data:\<close>\<close>
  "truthy PNone = False"
| "truthy (PBool b) = b"
| "truthy (PInt i) = (i \<noteq> 0)"
| "truthy (PFloat r) = (r \<noteq> 0)"
| "truthy (PStr s) = (s \<noteq> [])"
| "truthy (PList xs) = (xs \<noteq> [])"
| "truthy (PDict d) = (d \<noteq> [])"

fun type_name :: "pyval \<Rightarrow> string" where
  \<comment> \<open>\<open>type(v).__name__\<close>\<close>
  "type_name PNone = ''NoneType''"
| "type_name (PBool b) = ''bool''"
| "type_name (PInt i) = ''int''"
| "type_name (PFloat r) = ''float''"
| "type_name (PStr s) = ''str''"
| "type_name (PList xs) = ''list''"
| "type_name (PDict d) = ''dict''"

fun py_len :: "pyval \<Rightarrow> pyerr + nat" where
  \<comment> \<open>\<open>len(v)\<close>\<close>
  "py_len (PStr s) = Inr (length s)"
| "py_len (PList xs) = Inr (length xs)"
| "py_len (PDict d) = Inr (length (dict_keys d))"
| "py_len v = Inl TypeError"

section \<open>Configuration\<close>

definition MIN_EXAMPLES :: nat where
  \<comment> \<open>\<open>CONFIG['MIN_EXAMPLES']\<close>, the same in both tools\<close>
  "MIN_EXAMPLES = 5"

section \<open>The Normalizer: examples\<close>

definition clean_example :: "string \<Rightarrow> string" where
  \<comment> \<open>the body of the loop of \<open>ensure_minimum_examples\<close> up to the test\<close>
  "clean_example ex =
     (let e1 = strip ex;
          e2 = (if startswith ''- '' e1 then drop 2 e1 else e1)
      in strip_chars [DQ] e2)"

fun clean_examples :: "pyval list \<Rightarrow> string list" where
  "clean_examples [] = []"
| "clean_examples (PStr s # rest) =
     (let ex = clean_example s in
      if ex \<noteq> [] \<and> ex \<noteq> ''examples:'' \<and> ex \<noteq> ''-''
      then ex # clean_examples rest
      else clean_examples rest)"
| "clean_examples (v # rest) = clean_examples rest"

function pad_examples :: "string list \<Rightarrow> string list" where
  \<comment> \<open>the \<open>while\<close> loop of \<open>ensure_minimum_examples\<close>\<close>
  "pad_examples ce =
     (if length ce < MIN_EXAMPLES
      then pad_examples
             (ce @ [''Example usage pattern '' @ str_of_nat (length ce + 1) @ '' for this marker''])
      else ce)"
  by pat_completeness auto
termination
  by (relation "measure (\<lambda>ce. MIN_EXAMPLES - length ce)") auto

declare pad_examples.simps [simp del]

definition ensure_minimum_examples :: "pyval \<Rightarrow> string list" where
  "ensure_minimum_examples examples =
     pad_examples (case examples of PList xs \<Rightarrow> clean_examples xs | _ \<Rightarrow> [])"

section \<open>The Validator\<close>

text \<open>
  The validator's messages are kept as values: one constructor for each message text of the
  source, with the data the text interpolates.
\<close>

datatype message =
    XorViolated "string list"
  | FrameNotDict string
  | FrameMissingFields "string list"
  | FrameFieldNotString string string
  | FrameFieldEmpty string
  | ExamplesNotList string
  | InsufficientExamples nat nat
  | ExampleNotString nat string
  | DuplicateExample string
  | MetadataNotDict string
  | MetadataMissingRecommended "string list"
  | TagsNotList
  | DuplicateTags
  | PatternNotString string
  | PatternEmpty
  | ComposedOfNotList string
  | ComponentNotDict nat
  | ComponentMissingFields nat
  | MissingRequiredFields "string list"
  | IdNotNonEmptyString
  | UnknownFields "string list"

record vstate =
  errors :: "message list"
  warnings :: "message list"

definition add_error :: "message \<Rightarrow> vstate \<Rightarrow> vstate" where
  "add_error m st = st\<lparr>errors := errors st @ [m]\<rparr>"

definition add_warning :: "message \<Rightarrow> vstate \<Rightarrow> vstate" where
  "add_warning m st = st\<lparr>warnings := warnings st @ [m]\<rparr>"

fun examples_loop :: "nat \<Rightarrow> pyval list \<Rightarrow> string list \<Rightarrow> vstate \<Rightarrow> bool \<times> vstate" where
  \<comment> \<open>the \<open>for i, example in enumerate(examples)\<close> loop; \<open>seen\<close> is \<open>unique_examples\<close>\<close>
  "examples_loop i [] seen st = (True, st)"
| "examples_loop i (PStr s # es) seen st =
     examples_loop (i + 1) es (s # seen)
       (if s \<in> set seen then add_warning (DuplicateExample (take 50 s)) st else st)"
| "examples_loop i (v # es) seen st = (False, add_error (ExampleNotString i (type_name v)) st)"

definition validate_examples :: "pyval \<Rightarrow> vstate \<Rightarrow> bool \<times> vstate" where
  "validate_examples examples st =
     (case examples of
        PList xs \<Rightarrow>
          if length xs < MIN_EXAMPLES
          then (False, add_error (InsufficientExamples (length xs) MIN_EXAMPLES) st)
          else examples_loop 0 xs [] st
      | _ \<Rightarrow> (False, add_error (ExamplesNotList (type_name examples)) st))"

section \<open>The Normalizer\<close>

text \<open>
  What the Normalizer takes from its environment: the text of
  \<open>datetime.now().isoformat()\<close>, and \<open>str(v)\<close> for a value that is not a string.
\<close>

record pyenv =
  now_iso :: string
  repr_of :: "pyval \<Rightarrow> string"

definition py_str :: "pyenv \<Rightarrow> pyval \<Rightarrow> string" where
  \<comment> \<open>\<open>str(v)\<close>, also the text an f-string interpolates\<close>
  "py_str env v = (case v of PStr s \<Rightarrow> s | _ \<Rightarrow> repr_of env v)"

definition lower_char :: "char \<Rightarrow> char" where
  "lower_char c = (let n = (of_char c :: nat) in
     if (65 \<le> n \<and> n \<le> 90) \<or> (192 \<le> n \<and> n \<le> 222 \<and> n \<noteq> 215)
     then char_of (n + 32) else c)"

definition lower :: "string \<Rightarrow> string" where
  "lower s = map lower_char s"

definition frame_templates :: "(string \<times> pydict) list" where
  "frame_templates =
   [(''ENTITY'',
      [(''signal'', PStr ''Named entity detection patterns''),
       (''concept'', PStr ''Recognition of persons, organizations, locations''),
       (''pragmatics'', PStr ''Entity extraction and classification''),
       (''narrative'', PStr ''Identifying key actors and references in discourse'')]),
    (''ATTACHMENT'',
      [(''signal'', PStr ''Attachment style linguistic patterns''),
       (''concept'', PStr ''Psychological attachment theory markers''),
       (''pragmatics'', PStr ''Relationship pattern identification''),
       (''narrative'', PStr ''Understanding interpersonal dynamics through language'')]),
    (''EMOTION'',
      [(''signal'', PStr ''Emotional expression patterns''),
       (''concept'', PStr ''Affective state indicators''),
       (''pragmatics'', PStr ''Emotion recognition and tracking''),
       (''narrative'', PStr ''Monitoring emotional trajectories in conversation'')]),
    (''CONVERSATION'',
      [(''signal'', PStr ''Conversational dynamics patterns''),
       (''concept'', PStr ''Interaction and dialogue structures''),
       (''pragmatics'', PStr ''Conversation flow analysis''),
       (''narrative'', PStr ''Understanding communication patterns and strategies'')]),
    (''META'',
      [(''signal'', PStr ''Meta-level communication patterns''),
       (''concept'', PStr ''Higher-order linguistic structures''),
       (''pragmatics'', PStr ''Meta-communication analysis''),
       (''narrative'', PStr ''Detecting abstract patterns across multiple markers'')])]"

definition conversation_template :: pydict where
  \<comment> \<open>\<open>self.frame_templates['CONVERSATION']\<close>\<close>
  "conversation_template =
     [(''signal'', PStr ''Conversational dynamics patterns''),
      (''concept'', PStr ''Interaction and dialogue structures''),
      (''pragmatics'', PStr ''Conversation flow analysis''),
      (''narrative'', PStr ''Understanding communication patterns and strategies'')]"

definition detect_category :: "pyenv \<Rightarrow> pydict \<Rightarrow> pyerr + string" where
  \<comment> \<open>\<open>marker_name.startswith\<close> raises AttributeError unless the name is a string\<close>
  "detect_category env marker_data =
     (let description = py_str env (dict_get_default marker_data ''beschreibung'' (PStr ''''))
      in case dict_get_default marker_data ''marker_name'' (PStr '''') of
           PStr marker_name \<Rightarrow>
             Inr (if startswith ''A_LOC'' marker_name \<or> startswith ''A_PER'' marker_name
                     \<or> startswith ''A_ORG'' marker_name then ''ENTITY''
                  else if contains ''ATTACHMENT'' marker_name
                     \<or> contains ''attachment'' (lower description) then ''ATTACHMENT''
                  else if contains ''EMO_'' marker_name
                     \<or> contains ''emotion'' (lower description) then ''EMOTION''
                  else if startswith ''MM_'' marker_name then ''META''
                  else if startswith ''C_'' marker_name \<or> startswith ''S_'' marker_name
                    then ''CONVERSATION''
                  else ''CONVERSATION'')
         | _ \<Rightarrow> Inl AttributeError)"

definition generate_frame :: "pyenv \<Rightarrow> pydict \<Rightarrow> pyerr + pydict" where
  "generate_frame env marker_data =
     (case detect_category env marker_data of
        Inl e \<Rightarrow> Inl e
      | Inr category \<Rightarrow>
          (let template = (case map_of frame_templates category of
                             Some t \<Rightarrow> t | None \<Rightarrow> conversation_template);
               marker_name = dict_get_default marker_data ''marker_name'' (PStr '''')
           in if truthy marker_name
              then Inr (dict_set ''signal''
                         (PStr (py_str env (dict_get_default template ''signal'' PNone)
                                @ '' for '' @ py_str env marker_name)) template)
              else Inr template))"

fun hashable :: "pyval \<Rightarrow> bool" where
  "hashable (PList xs) = False"
| "hashable (PDict d) = False"
| "hashable v = True"

fun py_key :: "pyval \<Rightarrow> pyval" where
  \<comment> \<open>equal numbers are one element of a set: \<open>True == 1 == 1.0\<close>\<close>
  "py_key (PBool b) = PFloat (if b then 1 else 0)"
| "py_key (PInt i) = PFloat (of_int i)"
| "py_key v = v"

fun set_elems :: "pyval list \<Rightarrow> pyval list \<Rightarrow> pyval list" where
  \<comment> \<open>the elements of \<open>set(xs)\<close>: the first of each group of equal values\<close>
  "set_elems seen [] = []"
| "set_elems seen (x # xs) =
     (if py_key x \<in> set seen then set_elems seen xs
      else x # set_elems (py_key x # seen) xs)"

definition py_set :: "pyval \<Rightarrow> pyerr + pyval list" where
  \<comment> \<open>\<open>set(v)\<close>, its elements in order of first occurrence; Python iterates a set in the
      order of its hash table, so the order of the list stands for one of the orders
      Python may give, and only its elements and its length are the same in all of them\<close>
  "py_set v =
     (case v of
        PList xs \<Rightarrow> if list_all hashable xs then Inr (set_elems [] xs) else Inl TypeError
      | PStr s \<Rightarrow> Inr (set_elems [] (map (\<lambda>c. PStr [c]) s))
      | PDict d \<Rightarrow> Inr (map PStr (dict_keys d))
      | _ \<Rightarrow> Inl TypeError)"

definition metadata_get :: "pydict \<Rightarrow> string \<Rightarrow> pyval \<Rightarrow> pyerr + pyval" where
  \<comment> \<open>\<open>marker_data.get('metadata', {}).get(k, default)\<close>\<close>
  "metadata_get marker_data k dflt =
     (case dict_get_default marker_data ''metadata'' (PDict []) of
        PDict m \<Rightarrow> Inr (dict_get_default m k dflt)
      | _ \<Rightarrow> Inl AttributeError)"

definition optional_fields_of :: "pyenv \<Rightarrow> pydict \<Rightarrow> pydict \<Rightarrow> pydict" where
  \<comment> \<open>the three \<open>if ... in marker_data\<close> statements at the end of \<open>normalize_marker\<close>\<close>
  "optional_fields_of env marker_data normalized =
     (let n1 = (case dict_get marker_data ''kategorie'' of
                  Some v \<Rightarrow> dict_set ''category'' v normalized | None \<Rightarrow> normalized);
          n2 = (case dict_get marker_data ''semantische_grabber_id'' of
                  Some v \<Rightarrow> dict_set ''semantic_id'' v n1 | None \<Rightarrow> n1)
      in (case dict_get marker_data ''beschreibung'' of
            Some v \<Rightarrow> dict_set ''original_description'' (PStr (py_str env v)) n2
          | None \<Rightarrow> n2))"

definition normalize_marker :: "pyenv \<Rightarrow> pydict \<Rightarrow> string \<Rightarrow> pyerr + pydict" where
  "normalize_marker env marker_data file_name =
     (let marker_id = dict_get_default marker_data ''marker_name''
                        (PStr (replace ''.yaml'' '''' file_name))
      in case generate_frame env marker_data of
           Inl e \<Rightarrow> Inl e
         | Inr frame \<Rightarrow>
      (let examples = ensure_minimum_examples
                        (dict_get_default marker_data ''beispiele'' (PList []));
           pattern = ''Pattern for '' @ py_str env marker_id
       in case metadata_get marker_data ''created_at'' (PStr (now_iso env)) of
            Inl e \<Rightarrow> Inl e
          | Inr created \<Rightarrow>
       (case metadata_get marker_data ''created_by'' (PStr ''complete_markers.py'') of
            Inl e \<Rightarrow> Inl e
          | Inr author \<Rightarrow>
       (case metadata_get marker_data ''version'' (PStr ''1.0'') of
            Inl e \<Rightarrow> Inl e
          | Inr version \<Rightarrow>
       (case metadata_get marker_data ''tags'' (PList [PStr ''normalized'', PStr ''ld3.11'']) of
            Inl e \<Rightarrow> Inl e
          | Inr tags \<Rightarrow>
       (case py_set tags of
            Inl e \<Rightarrow> Inl e
          | Inr tag_list \<Rightarrow>
              Inr (optional_fields_of env marker_data
                     [(''_id'', marker_id),
                      (''frame'', PDict frame),
                      (''examples'', PList (map PStr examples)),
                      (''pattern'', PStr pattern),
                      (''metadata'',
                         PDict [(''created'', created),
                                (''author'', author),
                                (''version'', version),
                                (''tags'', PList tag_list)])])))))))"

section \<open>The Validator: the other checks\<close>

definition xor_fields :: "string list" where
  "xor_fields = [''pattern'', ''composed_of'', ''detect_class'']"

definition frame_fields :: "string list" where
  \<comment> \<open>\<open>self.frame_fields\<close>, a set in the source\<close>
  "frame_fields = [''signal'', ''concept'', ''pragmatics'', ''narrative'']"

definition required_fields :: "string list" where
  "required_fields = [''_id'', ''frame'', ''examples'']"

definition optional_fields :: "string list" where
  "optional_fields = [''metadata'', ''category'', ''semantic_id'', ''original_description'',
                      ''pattern'', ''composed_of'', ''detect_class'']"

definition validate_xor_constraint :: "pydict \<Rightarrow> vstate \<Rightarrow> bool \<times> vstate" where
  "validate_xor_constraint marker st =
     (let present_fields = filter (\<lambda>f. dict_has f marker) xor_fields
      in if length present_fields \<noteq> 1
         then (False, add_error (XorViolated present_fields) st)
         else (True, st))"

text \<open>
  The loop of \<open>validate_frame_structure\<close> runs over a Python set, whose order is not fixed:
  the functions below take the order as the list \<open>fs\<close>.
\<close>

fun frame_loop :: "string list \<Rightarrow> pydict \<Rightarrow> vstate \<Rightarrow> pyerr + bool \<times> vstate" where
  "frame_loop [] frame st = Inr (True, st)"
| "frame_loop (field # fs) frame st =
     (case dict_get frame field of
        None \<Rightarrow> Inl KeyError
      | Some (PStr s) \<Rightarrow>
          frame_loop fs frame
            (if strip s = [] then add_warning (FrameFieldEmpty field) st else st)
      | Some v \<Rightarrow> Inr (False, add_error (FrameFieldNotString field (type_name v)) st))"

definition validate_frame_structure ::
    "string list \<Rightarrow> pyval \<Rightarrow> vstate \<Rightarrow> pyerr + bool \<times> vstate" where
  "validate_frame_structure fs frame st =
     (case frame of
        PDict d \<Rightarrow>
          (let missing_fields = filter (\<lambda>f. \<not> dict_has f d) fs
           in if missing_fields \<noteq> []
              then Inr (False, add_error (FrameMissingFields missing_fields) st)
              else frame_loop fs d st)
      | _ \<Rightarrow> Inr (False, add_error (FrameNotDict (type_name frame)) st))"

definition validate_metadata :: "pyval \<Rightarrow> vstate \<Rightarrow> pyerr + bool \<times> vstate" where
  \<comment> \<open>\<open>set(tags)\<close> raises TypeError on a tag that is a list or a mapping\<close>
  "validate_metadata metadata st =
     (case metadata of
        PNone \<Rightarrow> Inr (True, st)
      | PDict d \<Rightarrow>
          (let missing = filter (\<lambda>f. \<not> dict_has f d)
                           [''created'', ''author'', ''version'', ''tags''];
               st1 = (if missing \<noteq> []
                      then add_warning (MetadataMissingRecommended missing) st else st)
           in case dict_get d ''tags'' of
                None \<Rightarrow> Inr (True, st1)
              | Some (PList tags) \<Rightarrow>
                  (case py_set (PList tags) of
                     Inl e \<Rightarrow> Inl e
                   | Inr elems \<Rightarrow>
                       Inr (True, if length tags \<noteq> length elems
                                  then add_warning DuplicateTags st1 else st1))
              | Some v \<Rightarrow> Inr (False, add_error TagsNotList st1))
      | _ \<Rightarrow> Inr (False, add_error (MetadataNotDict (type_name metadata)) st))"

definition validate_pattern :: "pyval \<Rightarrow> vstate \<Rightarrow> bool \<times> vstate" where
  "validate_pattern pattern st =
     (case pattern of
        PStr s \<Rightarrow> (True, if strip s = [] then add_warning PatternEmpty st else st)
      | _ \<Rightarrow> (False, add_error (PatternNotString (type_name pattern)) st))"

fun composed_loop :: "nat \<Rightarrow> pyval list \<Rightarrow> vstate \<Rightarrow> bool \<times> vstate" where
  "composed_loop i [] st = (True, st)"
| "composed_loop i (PDict c # cs) st =
     (if \<not> dict_has ''type'' c \<or> \<not> dict_has ''marker_ids'' c
      then (False, add_error (ComponentMissingFields i) st)
      else composed_loop (i + 1) cs st)"
| "composed_loop i (v # cs) st = (False, add_error (ComponentNotDict i) st)"

definition validate_composed_of :: "pyval \<Rightarrow> vstate \<Rightarrow> bool \<times> vstate" where
  "validate_composed_of composed_of st =
     (case composed_of of
        PList cs \<Rightarrow> composed_loop 0 cs st
      | _ \<Rightarrow> (False, add_error (ComposedOfNotList (type_name composed_of)) st))"

definition id_ok :: "pyval \<Rightarrow> bool" where
  \<comment> \<open>\<open>isinstance(marker['_id'], str) and marker['_id'].strip()\<close>\<close>
  "id_ok v = (case v of PStr s \<Rightarrow> strip s \<noteq> [] | _ \<Rightarrow> False)"

definition validate_optional :: "pydict \<Rightarrow> vstate \<Rightarrow> pyerr + vstate" where
  \<comment> \<open>the part of \<open>validate_marker\<close> after the XOR check, up to the unknown fields\<close>
  "validate_optional marker st =
     (let st1 = (case dict_get marker ''pattern'' of
                   Some p \<Rightarrow> snd (validate_pattern p st) | None \<Rightarrow> st);
          st2 = (case dict_get marker ''composed_of'' of
                   Some c \<Rightarrow> snd (validate_composed_of c st1) | None \<Rightarrow> st1)
      in case (case dict_get marker ''metadata'' of
                 Some m \<Rightarrow> validate_metadata m st2 | None \<Rightarrow> Inr (True, st2)) of
           Inl e \<Rightarrow> Inl e
         | Inr (ok, st3) \<Rightarrow>
             (let all_allowed_fields = required_fields @ optional_fields
                                       @ [''pattern'', ''composed_of'', ''detect_class''];
                  unknown_fields = filter (\<lambda>k. k \<notin> set all_allowed_fields) (dict_keys marker)
              in Inr (if unknown_fields \<noteq> []
                      then add_warning (UnknownFields unknown_fields) st3 else st3)))"

definition validate_marker ::
    "string list \<Rightarrow> pydict \<Rightarrow> pyerr + bool \<times> message list \<times> message list" where
  \<comment> \<open>returns \<open>(is_valid, errors, warnings)\<close>; \<open>fs\<close> is the order of the frame loop\<close>
  "validate_marker fs marker =
     (let st0 = \<lparr>errors = [], warnings = []\<rparr>;
          missing_required = filter (\<lambda>f. \<not> dict_has f marker) required_fields
      in if missing_required \<noteq> []
         then Inr (False, [MissingRequiredFields missing_required], [])
         else
      (let st1 = (if \<not> id_ok (dict_get_default marker ''_id'' PNone)
                  then add_error IdNotNonEmptyString st0 else st0)
       in case validate_frame_structure fs (dict_get_default marker ''frame'' PNone) st1 of
            Inl e \<Rightarrow> Inl e
          | Inr (False, st2) \<Rightarrow> Inr (False, errors st2, warnings st2)
          | Inr (True, st2) \<Rightarrow>
       (case validate_examples (dict_get_default marker ''examples'' PNone) st2 of
            (False, st3) \<Rightarrow> Inr (False, errors st3, warnings st3)
          | (True, st3) \<Rightarrow>
       (case validate_xor_constraint marker st3 of
            (False, st4) \<Rightarrow> Inr (False, errors st4, warnings st4)
          | (True, st4) \<Rightarrow>
       (case validate_optional marker st4 of
            Inl e \<Rightarrow> Inl e
          | Inr st5 \<Rightarrow> Inr (errors st5 = [], errors st5, warnings st5))))))"

definition vappend :: "vstate \<Rightarrow> vstate \<Rightarrow> vstate" where
  \<comment> \<open>the messages of the second state after those of the first\<close>
  "vappend st d = \<lparr>errors = errors st @ errors d, warnings = warnings st @ warnings d\<rparr>"

section \<open>The Qualifier\<close>

datatype rating = Excellent | Good | Acceptable | NeedsImprovement | Poor

definition py_in :: "string \<Rightarrow> pyval \<Rightarrow> pyerr + bool" where
  \<comment> \<open>\<open>field in v\<close> for a string \<open>field\<close>\<close>
  "py_in field v =
     (case v of
        PDict d \<Rightarrow> Inr (dict_has field d)
      | PList xs \<Rightarrow> Inr (PStr field \<in> set xs)
      | PStr s \<Rightarrow> Inr (contains field s)
      | _ \<Rightarrow> Inl TypeError)"

fun py_all_in :: "string list \<Rightarrow> pyval \<Rightarrow> pyerr + bool" where
  \<comment> \<open>\<open>all(field in v for field in fields)\<close>\<close>
  "py_all_in [] v = Inr True"
| "py_all_in (f # fs) v =
     (case py_in f v of
        Inl e \<Rightarrow> Inl e
      | Inr False \<Rightarrow> Inr False
      | Inr True \<Rightarrow> py_all_in fs v)"

fun sum_len :: "pyval list \<Rightarrow> pyerr + nat" where
  \<comment> \<open>\<open>sum(len(v) for v in vs)\<close>\<close>
  "sum_len [] = Inr 0"
| "sum_len (v # vs) =
     (case py_len v of
        Inl e \<Rightarrow> Inl e
      | Inr n \<Rightarrow> (case sum_len vs of Inl e \<Rightarrow> Inl e | Inr m \<Rightarrow> Inr (n + m)))"

definition frame_total :: "pyval \<Rightarrow> pyerr + nat" where
  \<comment> \<open>\<open>sum(len(frame.get(f, '')) for f in frame)\<close>: a frame that is not a mapping has no
      \<open>get\<close>, and one that is no container cannot be iterated\<close>
  "frame_total frame =
     (case frame of
        PDict d \<Rightarrow> sum_len (map (\<lambda>f. dict_get_default d f (PStr '''')) (dict_keys d))
      | PList xs \<Rightarrow> if xs = [] then Inr 0 else Inl AttributeError
      | PStr s \<Rightarrow> if s = [] then Inr 0 else Inl AttributeError
      | _ \<Rightarrow> Inl TypeError)"

definition rating_of :: "real \<Rightarrow> rating" where
  "rating_of score =
     (if score \<ge> 90 then Excellent
      else if score \<ge> 80 then Good
      else if score \<ge> 70 then Acceptable
      else if score \<ge> 60 then NeedsImprovement
      else Poor)"

definition calculate_quality_score ::
    "pydict \<Rightarrow> message list \<Rightarrow> pyerr + real \<times> rating" where
  \<comment> \<open>every score is a multiple of 5 and the average is a quarter of a whole number, so
      the floating-point arithmetic of the source is exact\<close>
  "calculate_quality_score marker warns =
     (let score0 = 100 - real (length warns) * 5
      in case (case dict_get marker ''metadata'' of
                 None \<Rightarrow> Inr False
               | Some metadata \<Rightarrow>
                   py_all_in [''created'', ''author'', ''version'', ''tags''] metadata) of
           Inl e \<Rightarrow> Inl e
         | Inr has_all \<Rightarrow>
      (let score1 = (if has_all then score0 + 10 else score0)
       in case py_len (dict_get_default marker ''examples'' (PList [])) of
            Inl e \<Rightarrow> Inl e
          | Inr n \<Rightarrow>
      (let score2 = (if n > MIN_EXAMPLES then score1 + 5 else score1)
       in case (case dict_get marker ''frame'' of
                  None \<Rightarrow> Inr score2
                | Some frame \<Rightarrow>
                    (case frame_total frame of
                       Inl e \<Rightarrow> Inl e
                     | Inr total_len \<Rightarrow>
                         Inr (if real total_len / 4 > 50 then score2 + 5 else score2))) of
            Inl e \<Rightarrow> Inl e
          | Inr score \<Rightarrow> Inr (max 0 (min 100 score), rating_of score))))"

section \<open>The quality score as the specification words it\<close>

text \<open>
  These definitions follow the words of the specification, not the code: 100 minus 5 for
  each warning, plus 10 when \<open>metadata\<close> has the four recommended keys, plus 5 when there
  are more examples than the minimum, plus 5 when the average length of the four frame
  field values exceeds 50, clamped to the range from 0 to 100; the rating is read from
  the clamped score.
\<close>

definition spec_metadata_complete :: "pydict \<Rightarrow> bool" where
  "spec_metadata_complete marker =
     (case dict_get marker ''metadata'' of
        Some (PDict md) \<Rightarrow>
          list_all (\<lambda>k. dict_has k md) [''created'', ''author'', ''version'', ''tags'']
      | _ \<Rightarrow> False)"

definition spec_example_count :: "pydict \<Rightarrow> nat" where
  "spec_example_count marker =
     (case dict_get marker ''examples'' of Some (PList xs) \<Rightarrow> length xs | _ \<Rightarrow> 0)"

definition spec_field_length :: "pydict \<Rightarrow> string \<Rightarrow> nat" where
  "spec_field_length frame f = (case dict_get frame f of Some (PStr s) \<Rightarrow> length s | _ \<Rightarrow> 0)"

definition spec_average_frame_length :: "pydict \<Rightarrow> real" where
  "spec_average_frame_length marker =
     (case dict_get marker ''frame'' of
        Some (PDict frame) \<Rightarrow>
          real (spec_field_length frame ''signal'' + spec_field_length frame ''concept''
                + spec_field_length frame ''pragmatics'' + spec_field_length frame ''narrative'')
            / 4
      | _ \<Rightarrow> 0)"

definition spec_quality_score :: "pydict \<Rightarrow> message list \<Rightarrow> real \<times> rating" where
  "spec_quality_score marker warns =
     (let raw = 100 - 5 * real (length warns)
                + (if spec_metadata_complete marker then 10 else 0)
                + (if spec_example_count marker > MIN_EXAMPLES then 5 else 0)
                + (if spec_average_frame_length marker > 50 then 5 else 0);
          score = max 0 (min 100 raw)
      in (score,
          if score \<ge> 90 then Excellent
          else if score \<ge> 80 then Good
          else if score \<ge> 70 then Acceptable
          else if score \<ge> 60 then NeedsImprovement
          else Poor))"

section \<open>The Recovering Parser: repairs\<close>

definition is_identifier :: "string \<Rightarrow> bool" where
  \<comment> \<open>\<open>re.match(r'^[a-zA-Z_][a-zA-Z0-9_]*$', s)\<close> for a stripped \<open>s\<close> (no newline at its end)\<close>
  "is_identifier s =
     (case s of
        [] \<Rightarrow> False
      | c # cs \<Rightarrow>
          (c \<in> set ''abcdefghijklmnopqrstuvwxyzABCDEFGHIJKLMNOPQRSTUVWXYZ_'') \<and>
          list_all (\<lambda>x. x \<in> set ''abcdefghijklmnopqrstuvwxyzABCDEFGHIJKLMNOPQRSTUVWXYZ0123456789_'') cs)"

definition repair_line :: "string \<Rightarrow> string" where
  \<comment> \<open>the body of the \<open>for line in lines\<close> loop\<close>
  "repair_line line =
     (if strip line \<noteq> [] \<and> \<not> startswith ''-'' (strip line) \<and> CHR '':'' \<notin> set line
      then (if is_identifier (strip line) then rstrip line @ '':'' else line)
      else line)"

text \<open>
  The pattern \<open>^\s*-\s*"(.+)"$\<close> tried at the start of a line. Neither \<open>-\<close> nor \<open>"\<close> is
  white space, so each \<open>\s*\<close> takes all the white space there is, newlines included. The
  group \<open>.+\<close> stays on one line, and the quote that closes it stands at the end of that line:
  the rest of the line after the opening quote is the group and the closing quote. The
  result is the group and the text after the match.
\<close>

definition quoted_rest :: "string \<Rightarrow> (string \<times> string) option" where
  \<comment> \<open>\<open>(.+)"$\<close> after the opening quote\<close>
  "quoted_rest u =
     (let y = takeWhile (\<lambda>x. x \<noteq> NL) u;
          rest = dropWhile (\<lambda>x. x \<noteq> NL) u
      in if 2 \<le> length y \<and> last y = DQ then Some (butlast y, rest) else None)"

definition after_dash :: "string \<Rightarrow> (string \<times> string) option" where
  \<comment> \<open>\<open>\s*"(.+)"$\<close> after the dash\<close>
  "after_dash t =
     (case dropWhile is_space t of
        [] \<Rightarrow> None
      | q # u \<Rightarrow> if q \<noteq> DQ then None else quoted_rest u)"

definition list_item_match :: "string \<Rightarrow> (string \<times> string) option" where
  "list_item_match s =
     (case dropWhile is_space s of
        [] \<Rightarrow> None
      | c # t \<Rightarrow> if c \<noteq> CHR ''-'' then None else after_dash t)"

lemma list_item_match_shorter:
  assumes "list_item_match s = Some (grp, rest)"
  shows "length rest < length s"
proof -
  have dw: "length (dropWhile P xs) \<le> length xs" for P and xs :: string
    by (induction xs) auto
  from assms obtain t u where
    1: "dropWhile is_space s = CHR ''-'' # t" and
    2: "dropWhile is_space t = DQ # u" and
    3: "rest = dropWhile (\<lambda>x. x \<noteq> NL) u"
    by (auto simp: list_item_match_def after_dash_def quoted_rest_def Let_def
             split: list.splits if_splits)
  have "length rest \<le> length u" using 3 dw by simp
  also have "\<dots> < length (dropWhile is_space t)" using 2 by simp
  also have "\<dots> \<le> length t" by (rule dw)
  also have "\<dots> < length (dropWhile is_space s)" using 1 by simp
  also have "\<dots> \<le> length s" by (rule dw)
  finally show ?thesis .
qed

function sub_list_items :: "bool \<Rightarrow> string \<Rightarrow> string" where
  \<comment> \<open>\<open>re.sub(r'^\s*-\s*"(.+)"$', r'  - "\1"', s, flags=re.MULTILINE)\<close>, scanning from the
      left; \<open>bol\<close> says that the position is the start of a line, where \<open>^\<close> matches\<close>
  "sub_list_items bol [] = []"
| "sub_list_items bol (c # cs) =
     (case (if bol then list_item_match (c # cs) else None) of
        Some (grp, rest) \<Rightarrow> ''  - '' @ [DQ] @ grp @ [DQ] @ sub_list_items False rest
      | None \<Rightarrow> c # sub_list_items (c = NL) cs)"
  by pat_completeness auto
termination
proof (relation "measure (\<lambda>(bol, s). length s)")
  show "wf (measure (\<lambda>(bol, s). length s))" by simp
next
  fix bol c cs x2 x y
  assume "(if bol then list_item_match (c # cs) else None) = Some x2" and "(x, y) = x2"
  then have "list_item_match (c # cs) = Some (x, y)" by (simp split: if_splits)
  then have "length y < length (c # cs)" by (rule list_item_match_shorter)
  then show "((False, y), bol, c # cs) \<in> measure (\<lambda>(bol, s). length s)" by simp
next
  fix bol c cs
  show "((c = NL, cs), bol, c # cs) \<in> measure (\<lambda>(bol, s). length s)" by simp
qed

declare sub_list_items.simps [simp del]

definition repair_lines :: "string \<Rightarrow> string" where
  \<comment> \<open>the loop over the lines of the content and the join after it\<close>
  "repair_lines content = join [NL] (map repair_line (split_on NL content))"

definition repair_yaml_content :: "string \<Rightarrow> string" where
  "repair_yaml_content content =
     (let content1 = replace ''---'' '''' content;
          content2 = replace [TAB] ''  '' content1;
          content3 = repair_lines content2
      in sub_list_items True content3)"

section \<open>The Recovering Parser: line salvage\<close>

record salvage =
  data :: pydict
  current_key :: "string option"
  current_value :: "string list"

definition flush :: "salvage \<Rightarrow> salvage" where
  \<comment> \<open>\<open>if current_key and current_value: data[current_key] = '\n'.join(current_value).strip()\<close>\<close>
  "flush st =
     (case current_key st of
        None \<Rightarrow> st
      | Some k \<Rightarrow>
          if k \<noteq> [] \<and> current_value st \<noteq> []
          then st\<lparr>data := dict_set k (PStr (strip (join [NL] (current_value st)))) (data st)\<rparr>
          else st)"

definition salvage_line :: "salvage \<Rightarrow> string \<Rightarrow> salvage" where
  \<comment> \<open>the body of the loop of strategy 3\<close>
  "salvage_line st raw =
     (let line = strip raw
      in if line = [] \<or> startswith ''#'' line then st
         else if CHR '':'' \<in> set line \<and> \<not> startswith ''-'' line
         then (let st1 = flush st;
                   key = strip (takeWhile (\<lambda>c. c \<noteq> CHR '':'') line);
                   val = strip (drop 1 (dropWhile (\<lambda>c. c \<noteq> CHR '':'') line))
               in st1\<lparr>current_key := Some key,
                       current_value := (if val \<noteq> [] then [val] else [])\<rparr>)
         else (case current_key st of
                 None \<Rightarrow> st
               | Some k \<Rightarrow>
                   if k \<noteq> [] then st\<lparr>current_value := current_value st @ [line]\<rparr> else st))"

definition line_salvage :: "string \<Rightarrow> pydict" where
  "line_salvage content =
     data (flush (foldl salvage_line
                    \<lparr>data = [], current_key = None, current_value = []\<rparr>
                    (split_on NL content)))"

section \<open>The Recovering Parser\<close>

text \<open>
  \<open>yaml.safe_load\<close> is the parameter \<open>load\<close>: \<open>None\<close> when it raises \<open>yaml.YAMLError\<close>. The
  content is \<open>None\<close> when the file cannot be read. The third component of the result lists
  the strategies that were entered, in order. An exception of \<open>safe_load\<close> that is no
  \<open>yaml.YAMLError\<close> is not caught by strategies 1 and 2 and leaves \<open>parse_with_recovery\<close>;
  it has no outcome here, and what is proved below is about loads that return or raise
  \<open>yaml.YAMLError\<close>.
\<close>

datatype strategy = Direct | Repair | LineSalvage

datatype parse_error = ReadFailed | AllStrategiesFailed

definition parse_with_recovery ::
    "(string \<Rightarrow> pyval option) \<Rightarrow> string option
       \<Rightarrow> pyval option \<times> parse_error option \<times> strategy list" where
  "parse_with_recovery load file_content =
     (case file_content of
        None \<Rightarrow> (None, Some ReadFailed, [])
      | Some content \<Rightarrow>
          (case (case load content of
                   Some v \<Rightarrow> if truthy v then Some v else None | None \<Rightarrow> None) of
             Some v \<Rightarrow> (Some v, None, [Direct])
           | None \<Rightarrow>
          (case (case load (repair_yaml_content content) of
                   Some v \<Rightarrow> if truthy v then Some v else None | None \<Rightarrow> None) of
             Some v \<Rightarrow> (Some v, None, [Direct, Repair])
           | None \<Rightarrow>
          (let salvaged = line_salvage content
           in if salvaged \<noteq> []
              then (Some (PDict salvaged), None, [Direct, Repair, LineSalvage])
              else (None, Some AllStrategiesFailed, [Direct, Repair, LineSalvage])))))"

section \<open>The lines that line salvage tells apart\<close>

text \<open>
  The three kinds of line in the loop of strategy 3, each read after \<open>strip\<close>: a blank line
  or a comment is passed over; a line with a colon that does not start with \<open>-\<close> starts a
  key; any other line continues the value of the current key.
\<close>

definition is_skipped :: "string \<Rightarrow> bool" where
  "is_skipped raw = (strip raw = [] \<or> startswith ''#'' (strip raw))"

definition is_key_line :: "string \<Rightarrow> bool" where
  "is_key_line raw =
     (\<not> is_skipped raw \<and> CHR '':'' \<in> set (strip raw) \<and> \<not> startswith ''-'' (strip raw))"

definition is_continuation :: "string \<Rightarrow> bool" where
  "is_continuation raw = (\<not> is_skipped raw \<and> \<not> is_key_line raw)"

definition line_key :: "string \<Rightarrow> string" where
  \<comment> \<open>\<open>parts[0].strip()\<close>\<close>
  "line_key raw = strip (takeWhile (\<lambda>c. c \<noteq> CHR '':'') (strip raw))"

definition line_value :: "string \<Rightarrow> string" where
  \<comment> \<open>\<open>parts[1].strip()\<close>\<close>
  "line_value raw = strip (drop 1 (dropWhile (\<lambda>c. c \<noteq> CHR '':'') (strip raw)))"

definition load_fails :: "(string \<Rightarrow> pyval option) \<Rightarrow> string \<Rightarrow> bool" where
  \<comment> \<open>a strategy yields nothing: \<open>safe_load\<close> raises, or its result is falsy\<close>
  "load_fails load text = (case load text of None \<Rightarrow> True | Some v \<Rightarrow> \<not> truthy v)"

section \<open>States of the line salvage\<close>

text \<open>
  \<open>pending\<close>: the current key is not empty and has value text, so the next flush stores
  it. \<open>keyed\<close>: the current key is not empty. \<open>live\<close>: the mapping is not empty or will
  not be after the next flush.
\<close>

definition pending :: "salvage \<Rightarrow> bool" where
  "pending st =
     (case current_key st of None \<Rightarrow> False | Some k \<Rightarrow> k \<noteq> [] \<and> current_value st \<noteq> [])"

definition keyed :: "salvage \<Rightarrow> bool" where
  "keyed st = (case current_key st of None \<Rightarrow> False | Some k \<Rightarrow> k \<noteq> [])"

definition live :: "salvage \<Rightarrow> bool" where
  "live st = (data st \<noteq> [] \<or> pending st)"

section \<open>Properties of a repaired text\<close>

fun dash_free :: "nat \<Rightarrow> string \<Rightarrow> bool" where
  \<comment> \<open>no three dashes in a row, in a text that follows \<open>n\<close> dashes\<close>
  "dash_free n [] = True"
| "dash_free n (c # cs) =
     (if c = CHR ''-'' then n < 2 \<and> dash_free (Suc n) cs else dash_free 0 cs)"

definition stable_lines :: "string \<Rightarrow> bool" where
  \<comment> \<open>no line of the text is changed by the loop that infers keys\<close>
  "stable_lines s = list_all (\<lambda>l. repair_line l = l) (split_on NL s)"

section \<open>Sample inputs\<close>

definition env0 :: pyenv where
  "env0 = \<lparr>now_iso = ''2025-01-01T00:00:00'', repr_of = (\<lambda>v. ''?'')\<rparr>"

definition cafe_data :: pydict where
  \<comment> \<open>a parsed structure with a name and nothing else\<close>
  "cafe_data = [(''marker_name'', PStr ''A_LOC_CAFE'')]"

definition cafe_marker :: pydict where
  "cafe_marker =
     [(''_id'', PStr ''A_LOC_CAFE''),
      (''frame'',
       PDict
        [(''signal'', PStr ''Named entity detection patterns for A_LOC_CAFE''),
         (''concept'', PStr ''Recognition of persons, organizations, locations''),
         (''pragmatics'', PStr ''Entity extraction and classification''),
         (''narrative'', PStr ''Identifying key actors and references in discourse'')]),
      (''examples'',
       PList
        [PStr ''Example usage pattern 1 for this marker'',
         PStr ''Example usage pattern 2 for this marker'',
         PStr ''Example usage pattern 3 for this marker'',
         PStr ''Example usage pattern 4 for this marker'',
         PStr ''Example usage pattern 5 for this marker'']),
      (''pattern'', PStr ''Pattern for A_LOC_CAFE''),
      (''metadata'',
       PDict
        [(''created'', PStr ''2025-01-01T00:00:00''),
         (''author'', PStr ''complete_markers.py''),
         (''version'', PStr ''1.0''),
         (''tags'', PList [PStr ''normalized'', PStr ''ld3.11''])])]"

definition vstate0 :: vstate where
  "vstate0 = \<lparr>errors = [], warnings = []\<rparr>"

definition synthetic_examples :: pyval where
  "synthetic_examples =
     PList [PStr ''Example usage pattern 1 for this marker'',
            PStr ''Example usage pattern 2 for this marker'',
            PStr ''Example usage pattern 3 for this marker'',
            PStr ''Example usage pattern 4 for this marker'',
            PStr ''Example usage pattern 5 for this marker'']"

definition default_metadata :: pyval where
  "default_metadata =
     PDict [(''created'', PStr ''2025-01-01T00:00:00''),
            (''author'', PStr ''complete_markers.py''),
            (''version'', PStr ''1.0''),
            (''tags'', PList [PStr ''normalized'', PStr ''ld3.11''])]"

definition cafe_marker2 :: pydict where
  \<comment> \<open>\<open>cafe_marker\<close> normalized again, as \<open>cafe.yaml\<close>\<close>
  "cafe_marker2 =
     [(''_id'', PStr ''cafe''),
      (''frame'', PDict conversation_template),
      (''examples'', synthetic_examples),
      (''pattern'', PStr ''Pattern for cafe''),
      (''metadata'', default_metadata)]"

definition plain_data :: pydict where
  \<comment> \<open>a parsed structure without a name\<close>
  "plain_data = [(''beispiele'', PList [PStr ''- hello there'', PStr ''good morning''])]"

definition plain_marker :: pydict where
  "plain_marker =
     [(''_id'', PStr ''greeting''),
      (''frame'', PDict conversation_template),
      (''examples'',
       PList [PStr ''hello there'', PStr ''good morning'',
              PStr ''Example usage pattern 3 for this marker'',
              PStr ''Example usage pattern 4 for this marker'',
              PStr ''Example usage pattern 5 for this marker'']),
      (''pattern'', PStr ''Pattern for greeting''),
      (''metadata'', default_metadata)]"

definition plain_marker2 :: pydict where
  \<comment> \<open>\<open>plain_marker\<close> normalized again, as \<open>greeting.yaml\<close>\<close>
  "plain_marker2 =
     [(''_id'', PStr ''greeting''),
      (''frame'', PDict conversation_template),
      (''examples'', synthetic_examples),
      (''pattern'', PStr ''Pattern for greeting''),
      (''metadata'', default_metadata)]"

definition unnamed_data :: pydict where
  \<comment> \<open>a parsed structure whose name is the empty string\<close>
  "unnamed_data = [(''marker_name'', PStr '''')]"

definition unnamed_marker :: pydict where
  "unnamed_marker =
     [(''_id'', PStr ''''),
      (''frame'', PDict conversation_template),
      (''examples'', synthetic_examples),
      (''pattern'', PStr ''Pattern for ''),
      (''metadata'', default_metadata)]"

definition no_examples_marker :: pydict where
  \<comment> \<open>a canonical marker without the field \<open>examples\<close>\<close>
  "no_examples_marker =
     [(''_id'', PStr ''A_LOC_CAFE''),
      (''frame'', PDict conversation_template),
      (''pattern'', PStr ''Pattern for A_LOC_CAFE'')]"

definition bad_id_marker :: pydict where
  \<comment> \<open>an id that is no string, a blank frame field and two descriptor fields\<close>
  "bad_id_marker =
     [(''_id'', PInt 7),
      (''frame'', PDict [(''signal'', PStr '' ''), (''concept'', PStr ''c''),
                         (''pragmatics'', PStr ''p''), (''narrative'', PStr ''n'')]),
      (''examples'', synthetic_examples),
      (''pattern'', PStr ''p''),
      (''composed_of'', PList [])]"

definition extra_frame :: pydict where
  \<comment> \<open>the four frame fields and one more key\<close>
  "extra_frame = conversation_template @ [(''note'', PStr ''x'')]"

definition extra_frame_marker :: pydict where
  "extra_frame_marker =
     [(''_id'', PStr ''A_LOC_CAFE''),
      (''frame'', PDict extra_frame),
      (''examples'', synthetic_examples),
      (''pattern'', PStr ''Pattern for A_LOC_CAFE'')]"

definition padded_frame_marker :: pydict where
  \<comment> \<open>short frame fields, a long fifth frame value, and an example given four times\<close>
  "padded_frame_marker =
     [(''_id'', PStr ''A_LOC_CAFE''),
      (''frame'', PDict (conversation_template @ [(''note'', PStr (replicate 100 CHR ''x''))])),
      (''examples'', PList [PStr ''hello'', PStr ''hello'', PStr ''hello'', PStr ''hello'',
                            PStr ''bye'']),
      (''pattern'', PStr ''Pattern for A_LOC_CAFE'')]"

definition padded_frame_warnings :: "message list" where
  "padded_frame_warnings =
     [DuplicateExample ''hello'', DuplicateExample ''hello'', DuplicateExample ''hello'']"

definition null_metadata_marker :: pydict where
  \<comment> \<open>\<open>metadata:\<close> with no value is \<open>None\<close>\<close>
  "null_metadata_marker =
     [(''_id'', PStr ''A_LOC_CAFE''),
      (''frame'', PDict conversation_template),
      (''examples'', synthetic_examples),
      (''pattern'', PStr ''Pattern for A_LOC_CAFE''),
      (''metadata'', PNone)]"

definition yaml_stub :: "string \<Rightarrow> pyval option" where
  \<comment> \<open>a loader for three documents, on which it agrees with YAML: \<open>{}\<close> is the empty
      mapping, \<open>a: 1\<close> is a mapping with one key, and every other text is taken as a
      syntax error, as the unclosed \<open>{a:\<close> and \<open>{a: 1\<close> are\<close>
  "yaml_stub text =
     (if text = ''{}'' then Some (PDict [])
      else if text = ''a: 1'' then Some (PDict [(''a'', PInt 1)])
      else None)"

definition yaml_stub_null :: "string \<Rightarrow> pyval option" where
  \<comment> \<open>a loader for two documents: \<open>null\<close> is \<open>None\<close>, and \<open>null:\<close> is a mapping with one
      key; YAML reads that key as \<open>None\<close>, and it is written here by its text, the keys of
      a mapping being strings in this development\<close>
  "yaml_stub_null text =
     (if text = ''null'' then Some PNone
      else if text = ''null:'' then Some (PDict [(''null'', PNone)])
      else None)"

definition bad_id_few_examples_marker :: pydict where
  \<comment> \<open>an id that is no string, a blank frame field and one example\<close>
  "bad_id_few_examples_marker =
     [(''_id'', PInt 7),
      (''frame'', PDict [(''signal'', PStr '' ''), (''concept'', PStr ''c''),
                         (''pragmatics'', PStr ''p''), (''narrative'', PStr ''n'')]),
      (''examples'', PList [PStr ''hello'']),
      (''pattern'', PStr ''p'')]"

definition bad_id_frame_marker :: pydict where
  \<comment> \<open>an empty id and a frame without \<open>narrative\<close>\<close>
  "bad_id_frame_marker =
     [(''_id'', PStr ''  ''),
      (''frame'', PDict [(''signal'', PStr ''s''), (''concept'', PStr ''c''),
                         (''pragmatics'', PStr ''p'')]),
      (''examples'', synthetic_examples),
      (''pattern'', PStr ''p'')]"

definition bad_id_only_marker :: pydict where
  \<comment> \<open>\<open>cafe_marker\<close> with the id \<open>None\<close> and a key the Validator does not know\<close>
  "bad_id_only_marker = dict_set ''_id'' PNone cafe_marker @ [(''note'', PStr ''x'')]"

section \<open>Mappings\<close>

lemma map_of_dict_set: "map_of (dict_set k v d) = (map_of d)(k \<mapsto> v)"
  by (induction d) (auto simp: fun_eq_iff)

lemma dict_has_dict_set: "dict_has k (dict_set k' v d) = (k = k' \<or> dict_has k d)"
  by (simp add: dict_has_def map_of_dict_set)

lemma dict_get_dict_set:
  "dict_get (dict_set k' v d) k = (if k = k' then Some v else dict_get d k)"
  by (simp add: dict_get_def map_of_dict_set)

section \<open>Examples synthesised by the Normalizer pass the Validator\<close>

lemma pad_examples_length: "MIN_EXAMPLES \<le> length (pad_examples ce)"
proof (induction ce rule: pad_examples.induct)
  case (1 ce)
  show ?case
  proof (cases "length ce < MIN_EXAMPLES")
    case True
    with 1 show ?thesis by (subst pad_examples.simps) simp
  next
    case False
    then show ?thesis by (subst pad_examples.simps) simp
  qed
qed

lemma examples_loop_strings:
  "fst (examples_loop i (map PStr ss) seen st) \<and>
   errors (snd (examples_loop i (map PStr ss) seen st)) = errors st"
  by (induction ss arbitrary: i seen st) (simp_all add: add_warning_def)

text \<open>
  C2. For every input value, a list or not, \<open>ensure_minimum_examples\<close> returns a list of
  at least \<open>MIN_EXAMPLES\<close> = 5 strings, and \<open>validate_examples\<close> accepts that list from any
  validator state: it returns true and records no error.
\<close>

theorem ensure_minimum_examples_valid:
  "MIN_EXAMPLES = 5 \<and> 5 \<le> length (ensure_minimum_examples v) \<and>
   fst (validate_examples (PList (map PStr (ensure_minimum_examples v))) st) \<and>
   errors (snd (validate_examples (PList (map PStr (ensure_minimum_examples v))) st)) = errors st"
proof -
  have len: "MIN_EXAMPLES \<le> length (ensure_minimum_examples v)"
    unfolding ensure_minimum_examples_def by (rule pad_examples_length)
  then have "\<not> length (map PStr (ensure_minimum_examples v)) < MIN_EXAMPLES" by simp
  then have "validate_examples (PList (map PStr (ensure_minimum_examples v))) st =
             examples_loop 0 (map PStr (ensure_minimum_examples v)) [] st"
    by (simp add: validate_examples_def)
  with len examples_loop_strings [of 0 "ensure_minimum_examples v" "[]" st]
  show ?thesis by (simp add: MIN_EXAMPLES_def)
qed

lemma ensure_minimum_examples_sample:
  "ensure_minimum_examples (PList [PStr ''- hi'', PInt 3, PStr '' examples: '']) =
     [''hi'', ''Example usage pattern 2 for this marker'',
      ''Example usage pattern 3 for this marker'',
      ''Example usage pattern 4 for this marker'',
      ''Example usage pattern 5 for this marker'']"
  by code_simp

theorem ensure_minimum_examples_valid_witness:
  "MIN_EXAMPLES = 5 \<and> 5 \<le> length (ensure_minimum_examples (PInt 7)) \<and>
   fst (validate_examples (PList (map PStr (ensure_minimum_examples (PInt 7)))) vstate0) \<and>
   errors (snd (validate_examples (PList (map PStr (ensure_minimum_examples (PInt 7)))) vstate0))
     = errors vstate0"
  by (rule ensure_minimum_examples_valid [of "PInt 7" vstate0])

section \<open>The descriptor field of a normalized marker\<close>

lemma dict_has_optional_fields_of:
  "dict_has k (optional_fields_of env md n) =
     (dict_has k n
      \<or> (k = ''category'' \<and> dict_has ''kategorie'' md)
      \<or> (k = ''semantic_id'' \<and> dict_has ''semantische_grabber_id'' md)
      \<or> (k = ''original_description'' \<and> dict_has ''beschreibung'' md))"
  by (auto simp: optional_fields_of_def Let_def map_of_dict_set dict_get_def dict_has_def
           split: option.splits)

lemma normalize_marker_InrD:
  assumes "normalize_marker env md fn = Inr m"
  obtains frame created author version tag_list where
    "m = optional_fields_of env md
           [(''_id'', dict_get_default md ''marker_name'' (PStr (replace ''.yaml'' '''' fn))),
            (''frame'', PDict frame),
            (''examples'', PList (map PStr (ensure_minimum_examples
                                    (dict_get_default md ''beispiele'' (PList []))))),
            (''pattern'', PStr (''Pattern for '' @ py_str env
                (dict_get_default md ''marker_name'' (PStr (replace ''.yaml'' '''' fn))))),
            (''metadata'', PDict [(''created'', created), (''author'', author),
                                  (''version'', version), (''tags'', PList tag_list)])]"
    and "generate_frame env md = Inr frame"
    and "metadata_get md ''version'' (PStr ''1.0'') = Inr version"
    and "\<exists>tags. metadata_get md ''tags'' (PList [PStr ''normalized'', PStr ''ld3.11'']) = Inr tags
           \<and> py_set tags = Inr tag_list"
  using assms unfolding normalize_marker_def Let_def
  by (auto split: sum.splits)

lemma normalize_cafe: "normalize_marker env0 cafe_data ''cafe.yaml'' = Inr cafe_marker"
  by code_simp

text \<open>
  C1. Every marker that \<open>normalize_marker\<close> returns has the field \<open>pattern\<close> and has neither
  \<open>composed_of\<close> nor \<open>detect_class\<close>: of the three descriptor fields exactly \<open>pattern\<close> is
  present, and the Validator's XOR check accepts the marker.
\<close>

theorem normalize_marker_descriptor:
  assumes "normalize_marker env marker_data file_name = Inr m"
  shows "dict_has ''pattern'' m \<and> \<not> dict_has ''composed_of'' m \<and> \<not> dict_has ''detect_class'' m
         \<and> filter (\<lambda>f. dict_has f m) xor_fields = [''pattern'']
         \<and> validate_xor_constraint m st = (True, st)"
proof -
  from assms obtain frame created author version tag_list where
    m: "m = optional_fields_of env marker_data
           [(''_id'', dict_get_default marker_data ''marker_name''
                        (PStr (replace ''.yaml'' '''' file_name))),
            (''frame'', PDict frame),
            (''examples'', PList (map PStr (ensure_minimum_examples
                                    (dict_get_default marker_data ''beispiele'' (PList []))))),
            (''pattern'', PStr (''Pattern for '' @ py_str env
                (dict_get_default marker_data ''marker_name''
                   (PStr (replace ''.yaml'' '''' file_name))))),
            (''metadata'', PDict [(''created'', created), (''author'', author),
                                  (''version'', version), (''tags'', PList tag_list)])]"
    by (rule normalize_marker_InrD)
  have p: "dict_has ''pattern'' m"
    unfolding m dict_has_optional_fields_of by (simp add: dict_has_def)
  have c: "\<not> dict_has ''composed_of'' m"
    unfolding m dict_has_optional_fields_of by (simp add: dict_has_def)
  have d: "\<not> dict_has ''detect_class'' m"
    unfolding m dict_has_optional_fields_of by (simp add: dict_has_def)
  from p c d show ?thesis by (simp add: xor_fields_def validate_xor_constraint_def)
qed

theorem normalize_marker_descriptor_witness:
  "normalize_marker env0 cafe_data ''cafe.yaml'' = Inr cafe_marker \<and>
   dict_has ''pattern'' cafe_marker \<and> \<not> dict_has ''composed_of'' cafe_marker
   \<and> \<not> dict_has ''detect_class'' cafe_marker
   \<and> filter (\<lambda>f. dict_has f cafe_marker) xor_fields = [''pattern'']
   \<and> validate_xor_constraint cafe_marker vstate0 = (True, vstate0)"
  using normalize_cafe normalize_marker_descriptor [OF normalize_cafe, of vstate0] by simp



section \<open>Normalizing a normalized marker again\<close>

lemma dict_get_optional_fields_of:
  assumes "k \<noteq> ''category''" "k \<noteq> ''semantic_id''" "k \<noteq> ''original_description''"
  shows "dict_get (optional_fields_of env md n) k = dict_get n k"
  using assms
  by (auto simp: optional_fields_of_def Let_def map_of_dict_set dict_get_def
           split: option.splits)

lemma optional_fields_of_none:
  assumes "\<not> dict_has ''kategorie'' md" "\<not> dict_has ''semantische_grabber_id'' md"
    "\<not> dict_has ''beschreibung'' md"
  shows "optional_fields_of env md n = n"
  using assms by (simp add: optional_fields_of_def dict_has_def dict_get_def)

lemma dict_get_default_absent: "\<not> dict_has k d \<Longrightarrow> dict_get_default d k v = v"
  by (simp add: dict_has_def dict_get_default_def)

lemma dict_get_default_present: "dict_get d k = Some w \<Longrightarrow> dict_get_default d k v = w"
  by (simp add: dict_get_def dict_get_default_def)

lemma set_elems_subset: "set (set_elems seen xs) \<subseteq> set xs"
  by (induction xs arbitrary: seen) auto

lemma py_set_hashable:
  assumes "py_set v = Inr l"
  shows "list_all hashable l"
proof (cases v)
  case (PList xs)
  with assms have "list_all hashable xs" and "l = set_elems [] xs"
    by (auto simp: py_set_def split: if_splits)
  then show ?thesis using set_elems_subset [of "[]" xs] by (auto simp: list_all_iff)
next
  case (PStr s)
  with assms have "l = set_elems [] (map (\<lambda>c. PStr [c]) s)" by (simp add: py_set_def)
  then show ?thesis using set_elems_subset [of "[]" "map (\<lambda>c. PStr [c]) s"]
    by (auto simp: list_all_iff)
next
  case (PDict d)
  with assms have "l = map PStr (dict_keys d)" by (simp add: py_set_def)
  then show ?thesis by (simp add: list_all_iff)
qed (use assms in \<open>simp_all add: py_set_def\<close>)

lemma generate_frame_plain:
  assumes "\<not> dict_has ''marker_name'' md" "\<not> dict_has ''beschreibung'' md"
  shows "generate_frame env md = Inr conversation_template"
proof -
  have n: "dict_get_default md ''marker_name'' (PStr '''') = PStr ''''"
    and b: "dict_get_default md ''beschreibung'' (PStr '''') = PStr ''''"
    using assms by (simp_all add: dict_get_default_absent)
  have c: "detect_category env md = Inr ''CONVERSATION''"
    by (simp add: detect_category_def n b py_str_def lower_def startswith_def)
  have t: "map_of frame_templates ''CONVERSATION'' = Some conversation_template"
    by (simp add: frame_templates_def conversation_template_def)
  show ?thesis by (simp add: generate_frame_def c t n)
qed

lemma ensure_minimum_examples_empty:
  "ensure_minimum_examples (PList []) =
     [''Example usage pattern 1 for this marker'',
      ''Example usage pattern 2 for this marker'',
      ''Example usage pattern 3 for this marker'',
      ''Example usage pattern 4 for this marker'',
      ''Example usage pattern 5 for this marker'']"
  by code_simp


lemma conversation_template_valid:
  "validate_frame_structure frame_fields (PDict conversation_template) st = Inr (True, st)"
  by (simp add: validate_frame_structure_def frame_fields_def conversation_template_def
        dict_has_def dict_get_def strip_def lstrip_def rstrip_def is_space_def)

text \<open>
  C6, as amended. \<open>normalize_marker\<close> reads the source schema (\<open>marker_name\<close>,
  \<open>beispiele\<close>, \<open>beschreibung\<close>) and writes the canonical one (\<open>_id\<close>, \<open>examples\<close>), so a
  second pass over its own output finds none of the fields it reads. For every marker the
  Normalizer returns, normalizing it again under the same file name returns a marker
  whose id is the file name with \<open>.yaml\<close> removed (the id of the first pass when the
  structure had no \<open>marker_name\<close>), whose frame is the default CONVERSATION template
  (four fields, each a non-empty string, accepted by the Validator without a warning),
  and whose examples are the five synthetic ones: exactly the configured minimum.
\<close>

theorem normalize_marker_twice:
  assumes "normalize_marker env marker_data file_name = Inr m"
  shows "\<exists>m2. normalize_marker env2 m file_name = Inr m2
     \<and> dict_get m2 ''_id'' = Some (PStr (replace ''.yaml'' '''' file_name))
     \<and> (\<not> dict_has ''marker_name'' marker_data \<longrightarrow> dict_get m2 ''_id'' = dict_get m ''_id'')
     \<and> dict_get m2 ''frame'' = Some (PDict conversation_template)
     \<and> validate_frame_structure frame_fields (PDict conversation_template) st = Inr (True, st)
     \<and> dict_get m2 ''examples'' = Some (PList (map PStr (ensure_minimum_examples (PList []))))
     \<and> length (ensure_minimum_examples (PList [])) = MIN_EXAMPLES"
proof -
  define stem where "stem = replace ''.yaml'' '''' file_name"
  from assms obtain frame created author version tag_list where
    m: "m = optional_fields_of env marker_data
           [(''_id'', dict_get_default marker_data ''marker_name'' (PStr stem)),
            (''frame'', PDict frame),
            (''examples'', PList (map PStr (ensure_minimum_examples
                                    (dict_get_default marker_data ''beispiele'' (PList []))))),
            (''pattern'', PStr (''Pattern for '' @ py_str env
                (dict_get_default marker_data ''marker_name'' (PStr stem)))),
            (''metadata'', PDict [(''created'', created), (''author'', author),
                                  (''version'', version), (''tags'', PList tag_list)])]"
    and tags: "\<exists>tags. metadata_get marker_data ''tags''
                  (PList [PStr ''normalized'', PStr ''ld3.11'']) = Inr tags
               \<and> py_set tags = Inr tag_list"
    unfolding stem_def by (rule normalize_marker_InrD)
  have no: "\<not> dict_has ''marker_name'' m" "\<not> dict_has ''beschreibung'' m"
    "\<not> dict_has ''kategorie'' m" "\<not> dict_has ''semantische_grabber_id'' m"
    "\<not> dict_has ''beispiele'' m"
    unfolding m dict_has_optional_fields_of by (simp_all add: dict_has_def)
  have id1: "dict_get m ''_id'' = Some (dict_get_default marker_data ''marker_name'' (PStr stem))"
    unfolding m by (simp add: dict_get_optional_fields_of) (simp add: dict_get_def)
  have meta: "dict_get_default m ''metadata'' (PDict []) =
      PDict [(''created'', created), (''author'', author),
             (''version'', version), (''tags'', PList tag_list)]"
    unfolding m
    by (rule dict_get_default_present)
       (simp add: dict_get_optional_fields_of, simp add: dict_get_def)
  have mg: "metadata_get m ''created_at'' d1 = Inr d1"
    "metadata_get m ''created_by'' d2 = Inr d2"
    "metadata_get m ''version'' d3 = Inr version"
    "metadata_get m ''tags'' d4 = Inr (PList tag_list)" for d1 d2 d3 d4
    by (simp_all add: metadata_get_def meta) (simp_all add: dict_get_default_def)
  from tags have "list_all hashable tag_list" by (auto dest: py_set_hashable)
  then have ps: "py_set (PList tag_list) = Inr (set_elems [] tag_list)"
    by (simp add: py_set_def)
  have gf: "generate_frame env2 m = Inr conversation_template"
    using no by (simp add: generate_frame_plain)
  define m2 where "m2 =
     [(''_id'', PStr stem),
      (''frame'', PDict conversation_template),
      (''examples'', PList (map PStr (ensure_minimum_examples (PList [])))),
      (''pattern'', PStr (''Pattern for '' @ stem)),
      (''metadata'', PDict [(''created'', PStr (now_iso env2)),
                            (''author'', PStr ''complete_markers.py''),
                            (''version'', version),
                            (''tags'', PList (set_elems [] tag_list))])]"
  have run: "normalize_marker env2 m file_name = Inr m2"
    unfolding normalize_marker_def Let_def
    using no
    by (simp add: gf mg ps dict_get_default_absent optional_fields_of_none
          stem_def [symmetric] m2_def py_str_def)
  have a: "dict_get m2 ''_id'' = Some (PStr stem)"
    and b: "dict_get m2 ''frame'' = Some (PDict conversation_template)"
    and c: "dict_get m2 ''examples'' =
              Some (PList (map PStr (ensure_minimum_examples (PList []))))"
    by (simp_all add: m2_def dict_get_def)
  have d: "\<not> dict_has ''marker_name'' marker_data \<longrightarrow> dict_get m2 ''_id'' = dict_get m ''_id''"
    by (simp add: a id1 dict_get_default_absent)
  have e: "length (ensure_minimum_examples (PList [])) = MIN_EXAMPLES"
    by (simp add: ensure_minimum_examples_empty MIN_EXAMPLES_def)
  from run a b c d e conversation_template_valid show ?thesis
    unfolding stem_def by blast
qed

lemma normalize_cafe_again: "normalize_marker env0 cafe_marker ''cafe.yaml'' = Inr cafe_marker2"
  by code_simp

lemma normalize_plain: "normalize_marker env0 plain_data ''greeting.yaml'' = Inr plain_marker"
  by code_simp

lemma normalize_plain_again:
  "normalize_marker env0 plain_marker ''greeting.yaml'' = Inr plain_marker2"
  by code_simp

text \<open>
  The claim as stated fails: \<open>cafe_data\<close> has the name \<open>A_LOC_CAFE\<close>, which is the id of the
  first pass; the second pass takes the id \<open>cafe\<close> from the file name and replaces the
  ENTITY frame by the CONVERSATION template.
\<close>

theorem normalize_marker_twice_counterexample:
  "normalize_marker env0 cafe_data ''cafe.yaml'' = Inr cafe_marker \<and>
   normalize_marker env0 cafe_marker ''cafe.yaml'' = Inr cafe_marker2 \<and>
   dict_get cafe_marker ''_id'' = Some (PStr ''A_LOC_CAFE'') \<and>
   dict_get cafe_marker2 ''_id'' = Some (PStr ''cafe'') \<and>
   dict_get cafe_marker ''_id'' \<noteq> dict_get cafe_marker2 ''_id'' \<and>
   dict_get cafe_marker ''frame'' \<noteq> dict_get cafe_marker2 ''frame''"
proof -
  have "dict_get cafe_marker ''_id'' = Some (PStr ''A_LOC_CAFE'')"
    and "dict_get cafe_marker2 ''_id'' = Some (PStr ''cafe'')"
    and "dict_get cafe_marker ''frame'' \<noteq> dict_get cafe_marker2 ''frame''"
    by (simp_all add: cafe_marker_def cafe_marker2_def dict_get_def conversation_template_def)
  with normalize_cafe normalize_cafe_again show ?thesis by simp
qed

theorem normalize_marker_twice_witness:
  "normalize_marker env0 plain_data ''greeting.yaml'' = Inr plain_marker \<and>
   \<not> dict_has ''marker_name'' plain_data \<and>
   normalize_marker env0 plain_marker ''greeting.yaml'' = Inr plain_marker2 \<and>
   dict_get plain_marker2 ''_id'' = Some (PStr ''greeting'') \<and>
   dict_get plain_marker2 ''_id'' = dict_get plain_marker ''_id'' \<and>
   dict_get plain_marker2 ''frame'' = Some (PDict conversation_template) \<and>
   dict_get plain_marker2 ''examples'' =
     Some (PList (map PStr (ensure_minimum_examples (PList [])))) \<and>
   length (ensure_minimum_examples (PList [])) = MIN_EXAMPLES"
proof -
  have h: "\<not> dict_has ''marker_name'' plain_data"
    by (simp add: plain_data_def dict_has_def)
  have stem: "replace ''.yaml'' '''' ''greeting.yaml'' = ''greeting''"
    by code_simp
  from normalize_marker_twice [OF normalize_plain, of env0 vstate0] h
  obtain m2 where "normalize_marker env0 plain_marker ''greeting.yaml'' = Inr m2"
    and "dict_get m2 ''_id'' = Some (PStr (replace ''.yaml'' '''' ''greeting.yaml''))"
    and "dict_get m2 ''_id'' = dict_get plain_marker ''_id''"
    and "dict_get m2 ''frame'' = Some (PDict conversation_template)"
    and "dict_get m2 ''examples'' =
           Some (PList (map PStr (ensure_minimum_examples (PList []))))"
    and "length (ensure_minimum_examples (PList [])) = MIN_EXAMPLES"
    by blast
  with normalize_plain normalize_plain_again h stem show ?thesis by simp
qed

section \<open>The identifier of a normalized marker\<close>

text \<open>
  The id is the value of \<open>marker_name\<close> whenever the structure has that key, whatever the
  value; only a structure without the key gets the file name with \<open>.yaml\<close> removed.
\<close>

lemma normalize_marker_id:
  assumes "normalize_marker env marker_data file_name = Inr m"
  shows "dict_get m ''_id'' =
           Some (case dict_get marker_data ''marker_name'' of
                   Some name \<Rightarrow> name
                 | None \<Rightarrow> PStr (replace ''.yaml'' '''' file_name))"
proof -
  from assms obtain rest where
    "m = optional_fields_of env marker_data
           ((''_id'', dict_get_default marker_data ''marker_name''
                        (PStr (replace ''.yaml'' '''' file_name))) # rest)"
    by (rule normalize_marker_InrD)
  then show ?thesis
    by (simp add: dict_get_optional_fields_of)
       (simp add: dict_get_def dict_get_default_def)
qed

lemma normalize_unnamed: "normalize_marker env0 unnamed_data ''foo.yaml'' = Inr unnamed_marker"
  by code_simp

text \<open>
  C9. The claim wants the file name (here \<open>foo\<close>) as the id when the name field is the empty
  string. The code returns the empty string as the id, and the Validator of the same
  repository rejects that marker: \<open>_id must be a non-empty string\<close>.
\<close>

theorem normalize_marker_empty_name:
  "dict_get unnamed_data ''marker_name'' = Some (PStr '''') \<and>
   normalize_marker env0 unnamed_data ''foo.yaml'' = Inr unnamed_marker \<and>
   dict_get unnamed_marker ''_id'' = Some (PStr '''') \<and>
   replace ''.yaml'' '''' ''foo.yaml'' = ''foo'' \<and>
   validate_marker frame_fields unnamed_marker = Inr (False, [IdNotNonEmptyString], [])"
proof -
  have "dict_get unnamed_data ''marker_name'' = Some (PStr '''')"
    by (simp add: unnamed_data_def dict_get_def)
  moreover have "dict_get unnamed_marker ''_id'' = Some (PStr '''')"
    by (simp add: unnamed_marker_def dict_get_def)
  moreover have "replace ''.yaml'' '''' ''foo.yaml'' = ''foo''"
    by code_simp
  moreover have "validate_marker frame_fields unnamed_marker =
                   Inr (False, [IdNotNonEmptyString], [])"
    by code_simp
  ultimately show ?thesis using normalize_unnamed by simp
qed

section \<open>Validation does not depend on the messages recorded before\<close>

lemma vappend_vstate0 [simp]: "vappend st \<lparr>errors = [], warnings = []\<rparr> = st"
  by (simp add: vappend_def)

lemma add_error_vappend [simp]: "add_error e (vappend st d) = vappend st (add_error e d)"
  by (simp add: add_error_def vappend_def)

lemma add_warning_vappend [simp]: "add_warning w (vappend st d) = vappend st (add_warning w d)"
  by (simp add: add_warning_def vappend_def)

lemma errors_vappend [simp]: "errors (vappend st d) = errors st @ errors d"
  and warnings_vappend [simp]: "warnings (vappend st d) = warnings st @ warnings d"
  by (simp_all add: vappend_def)

lemma if_vappend:
  "(if c then vappend st a else vappend st b) = vappend st (if c then a else b)"
  by simp

lemma frame_loop_vappend:
  "frame_loop fs frame (vappend st d) = map_sum id (map_prod id (vappend st)) (frame_loop fs frame d)"
proof (induction fs arbitrary: d)
  case Nil
  show ?case by simp
next
  case (Cons f fs)
  show ?case
  proof (cases "dict_get frame f")
    case None
    then show ?thesis by simp
  next
    case (Some v)
    then show ?thesis using Cons.IH
      by (cases v) simp_all
  qed
qed


lemma validate_frame_structure_vappend:
  "validate_frame_structure fs frame (vappend st d) =
     map_sum id (map_prod id (vappend st)) (validate_frame_structure fs frame d)"
  by (cases frame) (simp_all add: validate_frame_structure_def Let_def frame_loop_vappend)

lemma examples_loop_vappend:
  "examples_loop i xs seen (vappend st d) = map_prod id (vappend st) (examples_loop i xs seen d)"
proof (induction xs arbitrary: i seen d)
  case Nil
  show ?case by simp
next
  case (Cons x xs)
  then show ?case by (cases x) simp_all
qed

lemma validate_examples_vappend:
  "validate_examples ex (vappend st d) = map_prod id (vappend st) (validate_examples ex d)"
  by (cases ex) (simp_all add: validate_examples_def examples_loop_vappend)

lemma validate_xor_constraint_vappend:
  "validate_xor_constraint m (vappend st d) = map_prod id (vappend st) (validate_xor_constraint m d)"
  by (simp add: validate_xor_constraint_def Let_def)

lemma validate_pattern_vappend:
  "validate_pattern p (vappend st d) = map_prod id (vappend st) (validate_pattern p d)"
  by (cases p) (simp_all add: validate_pattern_def)

lemma composed_loop_vappend:
  "composed_loop i cs (vappend st d) = map_prod id (vappend st) (composed_loop i cs d)"
proof (induction cs arbitrary: i d)
  case Nil
  show ?case by simp
next
  case (Cons c cs)
  then show ?case by (cases c) simp_all
qed

lemma validate_composed_of_vappend:
  "validate_composed_of c (vappend st d) = map_prod id (vappend st) (validate_composed_of c d)"
  by (cases c) (simp_all add: validate_composed_of_def composed_loop_vappend)

lemma validate_metadata_vappend:
  "validate_metadata md (vappend st d) =
     map_sum id (map_prod id (vappend st)) (validate_metadata md d)"
  by (cases md)
     (auto simp: validate_metadata_def Let_def split: option.splits pyval.splits sum.splits)

lemma validate_optional_vappend:
  "validate_optional m (vappend st d) = map_sum id (vappend st) (validate_optional m d)"
  by (auto simp: validate_optional_def Let_def validate_pattern_vappend
        validate_composed_of_vappend validate_metadata_vappend
        split: option.splits sum.splits prod.splits)

section \<open>Required fields and the id\<close>

lemma map_fst_dict_set: "dict_has k d \<Longrightarrow> map fst (dict_set k v d) = map fst d"
  by (induction d) (auto simp: dict_has_def)

lemma dict_keys_dict_set: "dict_has k d \<Longrightarrow> dict_keys (dict_set k v d) = dict_keys d"
  by (simp add: dict_keys_def map_fst_dict_set)

lemma dict_has_dict_set_same: "dict_has k d \<Longrightarrow> dict_has f (dict_set k v d) = dict_has f d"
  by (auto simp: dict_has_dict_set)

lemma dict_get_default_dict_set:
  "dict_get_default (dict_set k v d) f w = (if f = k then v else dict_get_default d f w)"
  by (simp add: dict_get_default_def map_of_dict_set)

lemma validate_xor_constraint_dict_set:
  "dict_has k m \<Longrightarrow> validate_xor_constraint (dict_set k v m) st = validate_xor_constraint m st"
  by (simp add: validate_xor_constraint_def dict_has_dict_set_same)

lemma validate_optional_dict_set_id:
  assumes "dict_has ''_id'' m"
  shows "validate_optional (dict_set ''_id'' v m) st = validate_optional m st"
proof -
  have k: "dict_keys (dict_set ''_id'' v m) = dict_keys m"
    using assms by (rule dict_keys_dict_set)
  have g: "dict_get (dict_set ''_id'' v m) ''pattern'' = dict_get m ''pattern''"
    "dict_get (dict_set ''_id'' v m) ''composed_of'' = dict_get m ''composed_of''"
    "dict_get (dict_set ''_id'' v m) ''metadata'' = dict_get m ''metadata''"
    by (simp_all add: dict_get_dict_set)
  show ?thesis unfolding validate_optional_def k g ..
qed

lemma validate_marker_missing:
  assumes "filter (\<lambda>f. \<not> dict_has f marker) required_fields \<noteq> []"
  shows "validate_marker fs marker =
           Inr (False, [MissingRequiredFields (filter (\<lambda>f. \<not> dict_has f marker) required_fields)], [])"
  using assms by (simp add: validate_marker_def Let_def)

lemma validate_marker_bad_id:
  assumes req: "filter (\<lambda>f. \<not> dict_has f marker) required_fields = []"
    and bad: "\<not> id_ok (dict_get_default marker ''_id'' PNone)"
    and good: "id_ok good"
  shows "validate_marker fs marker =
           (case validate_marker fs (dict_set ''_id'' good marker) of
              Inl e \<Rightarrow> Inl e
            | Inr (ok, es, ws) \<Rightarrow> Inr (False, IdNotNonEmptyString # es, ws))"
proof -
  define S :: vstate where "S = \<lparr>errors = [], warnings = []\<rparr>"
  define I :: vstate where "I = \<lparr>errors = [IdNotNonEmptyString], warnings = []\<rparr>"
  define marker' where "marker' = dict_set ''_id'' good marker"
  define fr where "fr = dict_get_default marker ''frame'' PNone"
  define ex where "ex = dict_get_default marker ''examples'' PNone"
  from req have has: "dict_has ''_id'' marker"
    by (simp add: required_fields_def split: if_splits)
  have req': "filter (\<lambda>f. \<not> dict_has f marker') required_fields = []"
    using req has by (simp add: marker'_def dict_has_dict_set_same)
  have I: "add_error IdNotNonEmptyString S = vappend I S"
    by (simp add: S_def I_def add_error_def vappend_def)
  have eI: "errors (vappend I st) = IdNotNonEmptyString # errors st"
    and wI: "warnings (vappend I st) = warnings st" for st
    by (simp_all add: I_def)
  have bad_run: "validate_marker fs marker =
     (case validate_frame_structure fs fr (vappend I S) of
            Inl e \<Rightarrow> Inl e
          | Inr (False, st2) \<Rightarrow> Inr (False, errors st2, warnings st2)
          | Inr (True, st2) \<Rightarrow>
       (case validate_examples ex st2 of
            (False, st3) \<Rightarrow> Inr (False, errors st3, warnings st3)
          | (True, st3) \<Rightarrow>
       (case validate_xor_constraint marker st3 of
            (False, st4) \<Rightarrow> Inr (False, errors st4, warnings st4)
          | (True, st4) \<Rightarrow>
       (case validate_optional marker st4 of
            Inl e \<Rightarrow> Inl e
          | Inr st5 \<Rightarrow> Inr (errors st5 = [], errors st5, warnings st5)))))"
    using req bad unfolding validate_marker_def Let_def S_def [symmetric] fr_def ex_def
    by (simp add: I cong: sum.case_cong prod.case_cong bool.case_cong)
  have good_run: "validate_marker fs marker' =
     (case validate_frame_structure fs fr S of
            Inl e \<Rightarrow> Inl e
          | Inr (False, st2) \<Rightarrow> Inr (False, errors st2, warnings st2)
          | Inr (True, st2) \<Rightarrow>
       (case validate_examples ex st2 of
            (False, st3) \<Rightarrow> Inr (False, errors st3, warnings st3)
          | (True, st3) \<Rightarrow>
       (case validate_xor_constraint marker st3 of
            (False, st4) \<Rightarrow> Inr (False, errors st4, warnings st4)
          | (True, st4) \<Rightarrow>
       (case validate_optional marker st4 of
            Inl e \<Rightarrow> Inl e
          | Inr st5 \<Rightarrow> Inr (errors st5 = [], errors st5, warnings st5)))))"
    using req' good has unfolding validate_marker_def Let_def S_def [symmetric]
    by (simp add: marker'_def dict_get_default_dict_set fr_def ex_def
          validate_xor_constraint_dict_set validate_optional_dict_set_id
          cong: sum.case_cong prod.case_cong bool.case_cong)
  show ?thesis
    unfolding marker'_def [symmetric] bad_run good_run
    by (auto simp: validate_frame_structure_vappend validate_examples_vappend
          validate_xor_constraint_vappend validate_optional_vappend I_def
          split: sum.splits prod.splits bool.splits)
qed

lemma validate_marker_bad_id_run:
  assumes req: "filter (\<lambda>f. \<not> dict_has f marker) required_fields = []"
    and bad: "\<not> id_ok (dict_get_default marker ''_id'' PNone)"
  shows "validate_marker fs marker =
     (case validate_frame_structure fs (dict_get_default marker ''frame'' PNone)
             \<lparr>errors = [], warnings = []\<rparr> of
        Inl e \<Rightarrow> Inl e
      | Inr (False, st2) \<Rightarrow> Inr (False, IdNotNonEmptyString # errors st2, warnings st2)
      | Inr (True, st2) \<Rightarrow>
     (case validate_examples (dict_get_default marker ''examples'' PNone) st2 of
        (False, st3) \<Rightarrow> Inr (False, IdNotNonEmptyString # errors st3, warnings st3)
      | (True, st3) \<Rightarrow>
     (case validate_xor_constraint marker st3 of
        (False, st4) \<Rightarrow> Inr (False, IdNotNonEmptyString # errors st4, warnings st4)
      | (True, st4) \<Rightarrow>
     (case validate_optional marker st4 of
        Inl e \<Rightarrow> Inl e
      | Inr st5 \<Rightarrow> Inr (False, IdNotNonEmptyString # errors st5, warnings st5)))))"
proof -
  define S :: vstate where "S = \<lparr>errors = [], warnings = []\<rparr>"
  define I :: vstate where "I = \<lparr>errors = [IdNotNonEmptyString], warnings = []\<rparr>"
  define fr where "fr = dict_get_default marker ''frame'' PNone"
  define ex where "ex = dict_get_default marker ''examples'' PNone"
  have I: "add_error IdNotNonEmptyString S = vappend I S"
    by (simp add: S_def I_def add_error_def vappend_def)
  have bad_run: "validate_marker fs marker =
     (case validate_frame_structure fs fr (vappend I S) of
            Inl e \<Rightarrow> Inl e
          | Inr (False, st2) \<Rightarrow> Inr (False, errors st2, warnings st2)
          | Inr (True, st2) \<Rightarrow>
       (case validate_examples ex st2 of
            (False, st3) \<Rightarrow> Inr (False, errors st3, warnings st3)
          | (True, st3) \<Rightarrow>
       (case validate_xor_constraint marker st3 of
            (False, st4) \<Rightarrow> Inr (False, errors st4, warnings st4)
          | (True, st4) \<Rightarrow>
       (case validate_optional marker st4 of
            Inl e \<Rightarrow> Inl e
          | Inr st5 \<Rightarrow> Inr (errors st5 = [], errors st5, warnings st5)))))"
    using req bad unfolding validate_marker_def Let_def S_def [symmetric] fr_def ex_def
    by (simp add: I cong: sum.case_cong prod.case_cong bool.case_cong)
  show ?thesis
    unfolding bad_run S_def [symmetric] fr_def [symmetric] ex_def [symmetric]
    by (auto simp: validate_frame_structure_vappend validate_examples_vappend
          validate_xor_constraint_vappend validate_optional_vappend I_def
          split: sum.splits prod.splits bool.splits)
qed

text \<open>
  C7. A marker that lacks one of \<open>_id\<close>, \<open>frame\<close>, \<open>examples\<close> gets the single error
  \<open>Missing required fields\<close> and nothing else: no frame, example or XOR message is
  recorded. A marker that has the three fields and an id that is not a non-empty string
  goes through the checks in their order: the frame check, and when it passes the
  examples check, and when that passes the XOR check, and when that passes the checks of
  the optional fields. Each check finds what it finds on a marker with no id error, the
  result carries the id error in front of the errors of the checks that ran, with their
  warnings, and the marker is invalid also when every check passes.
\<close>

theorem validate_marker_required_then_id:
  "((\<exists>f\<in>set required_fields. \<not> dict_has f marker) \<longrightarrow>
      validate_marker fs marker =
        Inr (False,
             [MissingRequiredFields (filter (\<lambda>f. \<not> dict_has f marker) required_fields)], []))
   \<and> ((\<forall>f\<in>set required_fields. dict_has f marker)
        \<and> \<not> id_ok (dict_get_default marker ''_id'' PNone) \<longrightarrow>
      validate_marker fs marker =
        (case validate_frame_structure fs (dict_get_default marker ''frame'' PNone)
                \<lparr>errors = [], warnings = []\<rparr> of
           Inl e \<Rightarrow> Inl e
         | Inr (False, st2) \<Rightarrow> Inr (False, IdNotNonEmptyString # errors st2, warnings st2)
         | Inr (True, st2) \<Rightarrow>
        (case validate_examples (dict_get_default marker ''examples'' PNone) st2 of
           (False, st3) \<Rightarrow> Inr (False, IdNotNonEmptyString # errors st3, warnings st3)
         | (True, st3) \<Rightarrow>
        (case validate_xor_constraint marker st3 of
           (False, st4) \<Rightarrow> Inr (False, IdNotNonEmptyString # errors st4, warnings st4)
         | (True, st4) \<Rightarrow>
        (case validate_optional marker st4 of
           Inl e \<Rightarrow> Inl e
         | Inr st5 \<Rightarrow> Inr (False, IdNotNonEmptyString # errors st5, warnings st5))))))"
proof (intro conjI impI)
  assume "\<exists>f\<in>set required_fields. \<not> dict_has f marker"
  then have "filter (\<lambda>f. \<not> dict_has f marker) required_fields \<noteq> []"
    by (simp add: filter_empty_conv)
  then show "validate_marker fs marker =
        Inr (False,
             [MissingRequiredFields (filter (\<lambda>f. \<not> dict_has f marker) required_fields)], [])"
    by (rule validate_marker_missing)
next
  assume a: "(\<forall>f\<in>set required_fields. dict_has f marker)
        \<and> \<not> id_ok (dict_get_default marker ''_id'' PNone)"
  then have "filter (\<lambda>f. \<not> dict_has f marker) required_fields = []"
    by (simp add: filter_empty_conv)
  with a show "validate_marker fs marker =
        (case validate_frame_structure fs (dict_get_default marker ''frame'' PNone)
                \<lparr>errors = [], warnings = []\<rparr> of
           Inl e \<Rightarrow> Inl e
         | Inr (False, st2) \<Rightarrow> Inr (False, IdNotNonEmptyString # errors st2, warnings st2)
         | Inr (True, st2) \<Rightarrow>
        (case validate_examples (dict_get_default marker ''examples'' PNone) st2 of
           (False, st3) \<Rightarrow> Inr (False, IdNotNonEmptyString # errors st3, warnings st3)
         | (True, st3) \<Rightarrow>
        (case validate_xor_constraint marker st3 of
           (False, st4) \<Rightarrow> Inr (False, IdNotNonEmptyString # errors st4, warnings st4)
         | (True, st4) \<Rightarrow>
        (case validate_optional marker st4 of
           Inl e \<Rightarrow> Inl e
         | Inr st5 \<Rightarrow> Inr (False, IdNotNonEmptyString # errors st5, warnings st5)))))"
    by (simp add: validate_marker_bad_id_run)
qed

theorem validate_marker_required_then_id_witness:
  "filter (\<lambda>f. \<not> dict_has f no_examples_marker) required_fields = [''examples''] \<and>
   validate_marker frame_fields no_examples_marker =
     Inr (False, [MissingRequiredFields [''examples'']], []) \<and>
   filter (\<lambda>f. \<not> dict_has f bad_id_frame_marker) required_fields = [] \<and>
   \<not> id_ok (dict_get_default bad_id_frame_marker ''_id'' PNone) \<and>
   validate_marker frame_fields bad_id_frame_marker =
     Inr (False, [IdNotNonEmptyString, FrameMissingFields [''narrative'']], []) \<and>
   filter (\<lambda>f. \<not> dict_has f bad_id_few_examples_marker) required_fields = [] \<and>
   \<not> id_ok (dict_get_default bad_id_few_examples_marker ''_id'' PNone) \<and>
   validate_marker frame_fields bad_id_few_examples_marker =
     Inr (False, [IdNotNonEmptyString, InsufficientExamples 1 5], [FrameFieldEmpty ''signal'']) \<and>
   filter (\<lambda>f. \<not> dict_has f bad_id_marker) required_fields = [] \<and>
   \<not> id_ok (dict_get_default bad_id_marker ''_id'' PNone) \<and>
   validate_marker frame_fields bad_id_marker =
     Inr (False, [IdNotNonEmptyString, XorViolated [''pattern'', ''composed_of'']],
          [FrameFieldEmpty ''signal'']) \<and>
   filter (\<lambda>f. \<not> dict_has f bad_id_only_marker) required_fields = [] \<and>
   \<not> id_ok (dict_get_default bad_id_only_marker ''_id'' PNone) \<and>
   validate_marker frame_fields bad_id_only_marker =
     Inr (False, [IdNotNonEmptyString], [UnknownFields [''note'']])"
proof -
  let ?S = "\<lparr>errors = [], warnings = []\<rparr>"
  let ?W = "\<lparr>errors = [], warnings = [FrameFieldEmpty ''signal'']\<rparr>"
  have m: "filter (\<lambda>f. \<not> dict_has f no_examples_marker) required_fields = [''examples'']"
    by code_simp
  then have h0: "\<exists>f\<in>set required_fields. \<not> dict_has f no_examples_marker"
    by (metis filter_empty_conv list.distinct(1))
  from validate_marker_required_then_id [where marker = no_examples_marker and fs = frame_fields]
       h0 m
  have 0: "validate_marker frame_fields no_examples_marker =
             Inr (False, [MissingRequiredFields [''examples'']], [])"
    by simp
  \<comment> \<open>the frame check fails\<close>
  have r1: "filter (\<lambda>f. \<not> dict_has f bad_id_frame_marker) required_fields = []"
    by code_simp
  then have h1: "\<forall>f\<in>set required_fields. dict_has f bad_id_frame_marker"
    by (simp add: filter_empty_conv)
  have b1: "\<not> id_ok (dict_get_default bad_id_frame_marker ''_id'' PNone)"
    by code_simp
  have f1: "validate_frame_structure frame_fields
              (dict_get_default bad_id_frame_marker ''frame'' PNone) ?S =
            Inr (False, \<lparr>errors = [FrameMissingFields [''narrative'']], warnings = []\<rparr>)"
    by code_simp
  from validate_marker_required_then_id [where marker = bad_id_frame_marker and fs = frame_fields]
       h1 b1
  have 1: "validate_marker frame_fields bad_id_frame_marker =
     Inr (False, [IdNotNonEmptyString, FrameMissingFields [''narrative'']], [])"
    by (simp add: f1)
  \<comment> \<open>the frame check passes with a warning, the examples check fails\<close>
  have r2: "filter (\<lambda>f. \<not> dict_has f bad_id_few_examples_marker) required_fields = []"
    by code_simp
  then have h2: "\<forall>f\<in>set required_fields. dict_has f bad_id_few_examples_marker"
    by (simp add: filter_empty_conv)
  have b2: "\<not> id_ok (dict_get_default bad_id_few_examples_marker ''_id'' PNone)"
    by code_simp
  have f2: "validate_frame_structure frame_fields
              (dict_get_default bad_id_few_examples_marker ''frame'' PNone) ?S = Inr (True, ?W)"
    by code_simp
  have e2: "validate_examples (dict_get_default bad_id_few_examples_marker ''examples'' PNone) ?W =
            (False, \<lparr>errors = [InsufficientExamples 1 5],
                      warnings = [FrameFieldEmpty ''signal'']\<rparr>)"
    by code_simp
  from validate_marker_required_then_id
         [where marker = bad_id_few_examples_marker and fs = frame_fields] h2 b2
  have 2: "validate_marker frame_fields bad_id_few_examples_marker =
     Inr (False, [IdNotNonEmptyString, InsufficientExamples 1 5], [FrameFieldEmpty ''signal''])"
    by (simp add: f2 e2)
  \<comment> \<open>the frame and examples checks pass, the XOR check fails\<close>
  have r3: "filter (\<lambda>f. \<not> dict_has f bad_id_marker) required_fields = []"
    by code_simp
  then have h3: "\<forall>f\<in>set required_fields. dict_has f bad_id_marker"
    by (simp add: filter_empty_conv)
  have b3: "\<not> id_ok (dict_get_default bad_id_marker ''_id'' PNone)"
    by code_simp
  have f3: "validate_frame_structure frame_fields
              (dict_get_default bad_id_marker ''frame'' PNone) ?S = Inr (True, ?W)"
    by code_simp
  have e3: "validate_examples (dict_get_default bad_id_marker ''examples'' PNone) ?W = (True, ?W)"
    by code_simp
  have x3: "validate_xor_constraint bad_id_marker ?W =
            (False, \<lparr>errors = [XorViolated [''pattern'', ''composed_of'']],
                      warnings = [FrameFieldEmpty ''signal'']\<rparr>)"
    by code_simp
  from validate_marker_required_then_id [where marker = bad_id_marker and fs = frame_fields]
       h3 b3
  have 3: "validate_marker frame_fields bad_id_marker =
     Inr (False, [IdNotNonEmptyString, XorViolated [''pattern'', ''composed_of'']],
          [FrameFieldEmpty ''signal''])"
    by (simp add: f3 e3 x3)
  \<comment> \<open>every check passes\<close>
  have r4: "filter (\<lambda>f. \<not> dict_has f bad_id_only_marker) required_fields = []"
    by code_simp
  then have h4: "\<forall>f\<in>set required_fields. dict_has f bad_id_only_marker"
    by (simp add: filter_empty_conv)
  have b4: "\<not> id_ok (dict_get_default bad_id_only_marker ''_id'' PNone)"
    by code_simp
  have f4: "validate_frame_structure frame_fields
              (dict_get_default bad_id_only_marker ''frame'' PNone) ?S = Inr (True, ?S)"
    by code_simp
  have e4: "validate_examples (dict_get_default bad_id_only_marker ''examples'' PNone) ?S = (True, ?S)"
    by code_simp
  have x4: "validate_xor_constraint bad_id_only_marker ?S = (True, ?S)"
    by code_simp
  have o4: "validate_optional bad_id_only_marker ?S =
            Inr \<lparr>errors = [], warnings = [UnknownFields [''note'']]\<rparr>"
    by code_simp
  from validate_marker_required_then_id [where marker = bad_id_only_marker and fs = frame_fields]
       h4 b4
  have 4: "validate_marker frame_fields bad_id_only_marker =
     Inr (False, [IdNotNonEmptyString], [UnknownFields [''note'']])"
    by (simp add: f4 e4 x4 o4)
  from m 0 r1 b1 1 r2 b2 2 r3 b3 3 r4 b4 4 show ?thesis by simp
qed

section \<open>The frame check\<close>

lemma frame_loop_result:
  assumes "\<forall>f\<in>set fs. dict_has f d"
  shows "\<exists>ok st'. frame_loop fs d st = Inr (ok, st')
           \<and> (ok \<longleftrightarrow> (\<forall>f\<in>set fs. \<exists>s. dict_get d f = Some (PStr s)))
           \<and> (ok \<longrightarrow> errors st' = errors st)
           \<and> (\<not> ok \<longrightarrow> (\<exists>e. errors st' = errors st @ [e]))"
  using assms
proof (induction fs arbitrary: st)
  case Nil
  show ?case by auto
next
  case (Cons f fs)
  from Cons.prems obtain v where v: "dict_get d f = Some v"
    by (auto simp: dict_has_def dict_get_def)
  show ?case
  proof (cases "\<exists>s. v = PStr s")
    case True
    then obtain s where s: "v = PStr s" ..
    define st1 where
      "st1 = (if strip s = [] then add_warning (FrameFieldEmpty f) st else st)"
    have e1: "errors st1 = errors st" by (simp add: st1_def add_warning_def)
    from Cons.prems have "\<forall>f\<in>set fs. dict_has f d" by simp
    from Cons.IH [OF this, of st1] obtain ok st' where
      r: "frame_loop fs d st1 = Inr (ok, st')"
      and i: "ok \<longleftrightarrow> (\<forall>f\<in>set fs. \<exists>s. dict_get d f = Some (PStr s))"
      and k: "ok \<longrightarrow> errors st' = errors st1"
      and b: "\<not> ok \<longrightarrow> (\<exists>e. errors st' = errors st1 @ [e])"
      by blast
    have "frame_loop (f # fs) d st = Inr (ok, st')"
      using v s r by (simp add: st1_def)
    moreover have "ok \<longleftrightarrow> (\<forall>f\<in>set (f # fs). \<exists>s. dict_get d f = Some (PStr s))"
      using i v s by simp
    ultimately show ?thesis using k b e1 by auto
  next
    case False
    then have "frame_loop (f # fs) d st =
                 Inr (False, add_error (FrameFieldNotString f (type_name v)) st)"
      using v by (cases v) simp_all
    moreover have "\<not> (\<forall>f\<in>set (f # fs). \<exists>s. dict_get d f = Some (PStr s))"
      using v False by auto
    ultimately show ?thesis by (auto simp: add_error_def)
  qed
qed

lemma validate_frame_structure_result:
  assumes "set fs = set frame_fields"
  shows "\<exists>ok st'. validate_frame_structure fs (PDict d) st = Inr (ok, st')
           \<and> (ok \<longleftrightarrow> (\<forall>f\<in>set frame_fields. \<exists>s. dict_get d f = Some (PStr s)))
           \<and> (ok \<longrightarrow> errors st' = errors st)
           \<and> (\<not> ok \<longrightarrow> (\<exists>e. errors st' = errors st @ [e]))"
proof (cases "\<forall>f\<in>set fs. dict_has f d")
  case True
  then have "filter (\<lambda>f. \<not> dict_has f d) fs = []" by (simp add: filter_empty_conv)
  then have "validate_frame_structure fs (PDict d) st = frame_loop fs d st"
    by (simp add: validate_frame_structure_def)
  with frame_loop_result [OF True, of st] assms show ?thesis by simp
next
  case False
  then have ne: "filter (\<lambda>f. \<not> dict_has f d) fs \<noteq> []" by (simp add: filter_empty_conv)
  then have "validate_frame_structure fs (PDict d) st =
      Inr (False, add_error (FrameMissingFields (filter (\<lambda>f. \<not> dict_has f d) fs)) st)"
    by (simp add: validate_frame_structure_def)
  moreover from False assms obtain f where "f \<in> set frame_fields" "dict_get d f = None"
    by (auto simp: dict_has_def dict_get_def)
  then have "\<not> (\<forall>f\<in>set frame_fields. \<exists>s. dict_get d f = Some (PStr s))"
    by force
  ultimately show ?thesis by (auto simp: add_error_def)
qed

text \<open>
  C8, as amended. \<open>validate_frame_structure\<close> only looks for missing keys. For a frame that
  is a mapping, and for every order of its loop over the four required keys, it returns
  without an exception; it accepts the frame if and only if each of \<open>signal\<close>, \<open>concept\<close>,
  \<open>pragmatics\<close>, \<open>narrative\<close> is present with a string value, whatever other keys the frame
  has; when it rejects the frame it records exactly one error, and when it accepts it
  records none.
\<close>

theorem validate_frame_structure_iff:
  assumes "set fs = set frame_fields"
  shows "\<exists>ok st'. validate_frame_structure fs (PDict d) st = Inr (ok, st')
           \<and> (ok \<longleftrightarrow> (\<forall>f\<in>set frame_fields. \<exists>s. dict_get d f = Some (PStr s)))
           \<and> (ok \<longrightarrow> errors st' = errors st)
           \<and> (\<not> ok \<longrightarrow> (\<exists>e. errors st' = errors st @ [e]))"
  using assms by (rule validate_frame_structure_result)

text \<open>
  The claim as stated fails: \<open>extra_frame\<close> has the four required keys and the key \<open>note\<close>,
  so its key set is not the four required keys, and it is accepted without an error; a
  marker with that frame is valid.
\<close>

theorem validate_frame_structure_extra_key_counterexample:
  "set (dict_keys extra_frame) \<noteq> set frame_fields \<and>
   dict_has ''note'' extra_frame \<and>
   validate_frame_structure frame_fields (PDict extra_frame) vstate0 = Inr (True, vstate0) \<and>
   validate_marker frame_fields extra_frame_marker = Inr (True, [], [])"
proof -
  have "''note'' \<in> set (dict_keys extra_frame)" "''note'' \<notin> set frame_fields"
    by (simp_all add: extra_frame_def conversation_template_def dict_keys_def frame_fields_def)
  then have "set (dict_keys extra_frame) \<noteq> set frame_fields" by blast
  moreover have "dict_has ''note'' extra_frame"
    by (simp add: extra_frame_def conversation_template_def dict_has_def)
  moreover have
    "validate_frame_structure frame_fields (PDict extra_frame) vstate0 = Inr (True, vstate0)"
    by code_simp
  moreover have "validate_marker frame_fields extra_frame_marker = Inr (True, [], [])"
    by code_simp
  ultimately show ?thesis by simp
qed

theorem validate_frame_structure_iff_witness:
  "set (rev frame_fields) = set frame_fields \<and>
   validate_frame_structure (rev frame_fields) (PDict extra_frame) vstate0 = Inr (True, vstate0)"
proof -
  have h: "set (rev frame_fields) = set frame_fields" by simp
  have e: "validate_frame_structure (rev frame_fields) (PDict extra_frame) vstate0 =
             Inr (True, vstate0)"
    by code_simp
  from validate_frame_structure_iff [OF h, of extra_frame vstate0] e h
  show ?thesis by simp
qed

section \<open>The quality score\<close>

lemma rating_of_clamp:
  "rating_of score =
     (let c = max 0 (min 100 score)
      in if c \<ge> 90 then Excellent
         else if c \<ge> 80 then Good
         else if c \<ge> 70 then Acceptable
         else if c \<ge> 60 then NeedsImprovement
         else Poor)"
  by (simp add: rating_of_def Let_def max_def min_def)

lemma py_all_in_dict:
  "py_all_in fs (PDict md) = Inr (list_all (\<lambda>k. dict_has k md) fs)"
  by (induction fs) (simp_all add: py_in_def split: bool.splits)

lemma sum_len_strings:
  assumes "\<forall>f\<in>set fs. \<exists>s. dict_get d f = Some (PStr s)"
  shows "sum_len (map (\<lambda>f. dict_get_default d f (PStr '''')) fs) =
           Inr (sum_list (map (spec_field_length d) fs))"
  using assms
proof (induction fs)
  case Nil
  show ?case by simp
next
  case (Cons f fs)
  from Cons.prems obtain s where "dict_get d f = Some (PStr s)" by auto
  then have "dict_get_default d f (PStr '''') = PStr s" "spec_field_length d f = length s"
    by (simp_all add: dict_get_def dict_get_default_def spec_field_length_def)
  with Cons show ?case by simp
qed

lemma frame_total_four:
  assumes keys: "set (dict_keys d) = set frame_fields"
    and strs: "\<forall>f\<in>set frame_fields. \<exists>s. dict_get d f = Some (PStr s)"
  shows "frame_total (PDict d) =
           Inr (spec_field_length d ''signal'' + spec_field_length d ''concept''
                + spec_field_length d ''pragmatics'' + spec_field_length d ''narrative'')"
proof -
  have d1: "distinct (dict_keys d)" by (simp add: dict_keys_def)
  have d2: "distinct frame_fields" by (simp add: frame_fields_def)
  have "sum_list (map (spec_field_length d) (dict_keys d)) =
          sum (spec_field_length d) (set (dict_keys d))"
    using d1 by (rule sum_list_distinct_conv_sum_set)
  also have "\<dots> = sum (spec_field_length d) (set frame_fields)" by (simp add: keys)
  also have "\<dots> = sum_list (map (spec_field_length d) frame_fields)"
    using d2 by (rule sum_list_distinct_conv_sum_set [symmetric])
  finally have "sum_list (map (spec_field_length d) (dict_keys d)) =
      spec_field_length d ''signal'' + spec_field_length d ''concept''
        + spec_field_length d ''pragmatics'' + spec_field_length d ''narrative''"
    by (simp add: frame_fields_def)
  moreover from strs keys have "\<forall>f\<in>set (dict_keys d). \<exists>s. dict_get d f = Some (PStr s)"
    by simp
  ultimately show ?thesis by (simp add: frame_total_def sum_len_strings)
qed

lemma validate_optional_errors:
  assumes "validate_optional marker st = Inr st'" and "errors st' = []"
  shows "dict_get marker ''metadata'' = None \<or> dict_get marker ''metadata'' = Some PNone
         \<or> (\<exists>md. dict_get marker ''metadata'' = Some (PDict md))"
proof (cases "dict_get marker ''metadata''")
  case None
  then show ?thesis by simp
next
  case (Some v)
  show ?thesis
  proof (cases v)
    case PNone
    with Some show ?thesis by simp
  next
    case (PDict md)
    with Some show ?thesis by simp
  qed (use assms Some in
        \<open>auto simp: validate_optional_def validate_metadata_def Let_def add_error_def
                    add_warning_def split: if_splits\<close>)
qed

lemma validate_examples_TrueD:
  assumes "validate_examples ex st = (True, st')"
  shows "\<exists>xs. ex = PList xs \<and> MIN_EXAMPLES \<le> length xs"
  using assms by (cases ex) (auto simp: validate_examples_def split: if_splits)

lemma validate_marker_validD:
  assumes "validate_marker fs marker = Inr (True, es, ws)"
  shows "(\<exists>st st'. validate_frame_structure fs (dict_get_default marker ''frame'' PNone) st
                      = Inr (True, st'))
       \<and> (\<exists>xs. dict_get_default marker ''examples'' PNone = PList xs \<and> MIN_EXAMPLES \<le> length xs)
       \<and> dict_has ''examples'' marker
       \<and> (dict_get marker ''metadata'' = None \<or> dict_get marker ''metadata'' = Some PNone
            \<or> (\<exists>md. dict_get marker ''metadata'' = Some (PDict md)))"
proof -
  let ?S = "\<lparr>errors = [], warnings = []\<rparr>"
  from assms have req: "filter (\<lambda>f. \<not> dict_has f marker) required_fields = []"
    by (auto simp: validate_marker_def Let_def split: if_splits)
  then have has: "dict_has ''examples'' marker"
    by (simp add: required_fields_def split: if_splits)
  define st1 where "st1 = (if \<not> id_ok (dict_get_default marker ''_id'' PNone)
                           then add_error IdNotNonEmptyString ?S else ?S)"
  from assms req obtain st2 st3 st4 st5 where
    f: "validate_frame_structure fs (dict_get_default marker ''frame'' PNone) st1 = Inr (True, st2)"
    and e: "validate_examples (dict_get_default marker ''examples'' PNone) st2 = (True, st3)"
    and o: "validate_optional marker st4 = Inr st5" and z: "errors st5 = []"
    unfolding validate_marker_def Let_def st1_def [symmetric]
    by (auto split: sum.splits prod.splits bool.splits if_splits)
  from f e has validate_optional_errors [OF o z] validate_examples_TrueD [OF e]
  show ?thesis by blast
qed

lemma calculate_quality_score_mapping:
  assumes valid: "validate_marker fs marker = Inr (True, es, ws)"
    and fs: "set fs = set frame_fields"
    and frame: "dict_get marker ''frame'' = Some (PDict d)"
    and keys: "set (dict_keys d) = set frame_fields"
    and meta: "dict_get marker ''metadata'' \<noteq> Some PNone"
  shows "calculate_quality_score marker warns = Inr (spec_quality_score marker warns)"
proof -
  from validate_marker_validD [OF valid] obtain st st' xs where
    f: "validate_frame_structure fs (dict_get_default marker ''frame'' PNone) st = Inr (True, st')"
    and x: "dict_get_default marker ''examples'' PNone = PList xs"
    and hx: "dict_has ''examples'' marker"
    and m: "dict_get marker ''metadata'' = None \<or> dict_get marker ''metadata'' = Some PNone
            \<or> (\<exists>md. dict_get marker ''metadata'' = Some (PDict md))"
    by blast
  from frame have fr: "dict_get_default marker ''frame'' PNone = PDict d"
    by (simp add: dict_get_def dict_get_default_def)
  from validate_frame_structure_result [OF fs, of d st] f
  have strs: "\<forall>f\<in>set frame_fields. \<exists>s. dict_get d f = Some (PStr s)"
    unfolding fr by auto
  have total: "frame_total (PDict d) =
           Inr (spec_field_length d ''signal'' + spec_field_length d ''concept''
                + spec_field_length d ''pragmatics'' + spec_field_length d ''narrative'')"
    using keys strs by (rule frame_total_four)
  from hx x have ex: "dict_get marker ''examples'' = Some (PList xs)"
    by (auto simp: dict_has_def dict_get_def dict_get_default_def)
  then have exd: "dict_get_default marker ''examples'' (PList []) = PList xs"
    by (simp add: dict_get_def dict_get_default_def)
  have cnt: "spec_example_count marker = length xs"
    by (simp add: spec_example_count_def ex)
  have avg: "spec_average_frame_length marker =
      real (spec_field_length d ''signal'' + spec_field_length d ''concept''
            + spec_field_length d ''pragmatics'' + spec_field_length d ''narrative'') / 4"
    by (simp add: spec_average_frame_length_def frame)
  define T where "T = spec_field_length d ''signal'' + spec_field_length d ''concept''
            + spec_field_length d ''pragmatics'' + spec_field_length d ''narrative''"
  define c1 where "c1 = spec_metadata_complete marker"
  have pm: "(case dict_get marker ''metadata'' of
               None \<Rightarrow> Inr False
             | Some metadata \<Rightarrow>
                 py_all_in [''created'', ''author'', ''version'', ''tags''] metadata) = Inr c1"
    using m meta
    by (auto simp: c1_def spec_metadata_complete_def py_all_in_dict)
  define A where "A = (if real T / 4 > 50
       then (if length xs > MIN_EXAMPLES
             then (if c1 then (100 - real (length warns) * 5) + 10
                   else 100 - real (length warns) * 5) + 5
             else (if c1 then (100 - real (length warns) * 5) + 10
                   else 100 - real (length warns) * 5)) + 5
       else (if length xs > MIN_EXAMPLES
             then (if c1 then (100 - real (length warns) * 5) + 10
                   else 100 - real (length warns) * 5) + 5
             else (if c1 then (100 - real (length warns) * 5) + 10
                   else 100 - real (length warns) * 5)))"
  define B where "B = 100 - 5 * real (length warns)
                + (if c1 then 10 else 0)
                + (if length xs > MIN_EXAMPLES then 5 else 0)
                + (if real T / 4 > 50 then 5 else (0::real))"
  have AB: "A = B" by (simp add: A_def B_def)
  have code: "calculate_quality_score marker warns = Inr (max 0 (min 100 A), rating_of A)"
    unfolding calculate_quality_score_def Let_def pm
    by (simp only: exd frame total T_def [symmetric] A_def sum.case option.case py_len.simps)
  have "spec_quality_score marker warns =
          (let score = max 0 (min 100 B)
           in (score,
               if score \<ge> 90 then Excellent
               else if score \<ge> 80 then Good
               else if score \<ge> 70 then Acceptable
               else if score \<ge> 60 then NeedsImprovement
               else Poor))"
    unfolding spec_quality_score_def B_def c1_def cnt avg T_def by (simp only: Let_def)
  also have "\<dots> = (max 0 (min 100 B), rating_of B)"
    by (simp only: rating_of_clamp [of B] Let_def)
  finally show ?thesis by (simp only: code AB)
qed

text \<open>
  Where the frame of a marker the Validator accepts has the four frame keys and no other,
  and \<open>metadata\<close> is absent or a mapping, \<open>calculate_quality_score\<close> returns the score and
  the rating of the specification, \<open>spec_quality_score\<close>, for every list of warnings. The
  code takes the rating from the score before clamping; clamping to the range from 0 to
  100 crosses no threshold, so the rating is that of the clamped score.
\<close>

lemma calculate_quality_score_four_keys:
  assumes "validate_marker fs marker = Inr (True, es, ws)"
    and "set fs = set frame_fields"
    and "dict_get marker ''frame'' = Some (PDict d)"
    and "set (dict_keys d) = set frame_fields"
    and "dict_get marker ''metadata'' \<noteq> Some PNone"
  shows "calculate_quality_score marker warns = Inr (spec_quality_score marker warns)"
  using assms by (rule calculate_quality_score_mapping)

lemma validate_cafe: "validate_marker frame_fields cafe_marker = Inr (True, [], [])"
  by code_simp

lemma calculate_quality_score_cafe:
  "validate_marker frame_fields cafe_marker = Inr (True, [], []) \<and>
   dict_get cafe_marker ''metadata'' \<noteq> Some PNone \<and>
   calculate_quality_score cafe_marker [] = Inr (100, Excellent) \<and>
   spec_quality_score cafe_marker [] = (100, Excellent)"
proof -
  define d where "d =
        [(''signal'', PStr ''Named entity detection patterns for A_LOC_CAFE''),
         (''concept'', PStr ''Recognition of persons, organizations, locations''),
         (''pragmatics'', PStr ''Entity extraction and classification''),
         (''narrative'', PStr ''Identifying key actors and references in discourse'')]"
  have f: "dict_get cafe_marker ''frame'' = Some (PDict d)"
    by (simp add: cafe_marker_def dict_get_def d_def)
  have k: "set (dict_keys d) = set frame_fields"
    by (auto simp: d_def dict_keys_def frame_fields_def)
  have m: "dict_get cafe_marker ''metadata'' \<noteq> Some PNone"
    by (simp add: cafe_marker_def dict_get_def)
  have s: "spec_quality_score cafe_marker [] = (100, Excellent)"
    by (simp add: spec_quality_score_def spec_metadata_complete_def spec_example_count_def
          spec_average_frame_length_def spec_field_length_def cafe_marker_def
          dict_get_def dict_has_def MIN_EXAMPLES_def)
  from calculate_quality_score_four_keys [OF validate_cafe refl f k m, of "[]"]
       s validate_cafe m
  show ?thesis by simp
qed

text \<open>
  C3. The claim gives every marker the Validator accepts the score of \<open>spec_quality_score\<close>,
  whose frame bonus is for an average length above 50 of the four frame field values. The
  code departs from it on two markers the Validator accepts.

  \<^item> The frame bonus sums the lengths of all values of the frame (\<open>for f in frame\<close>) and
    divides by four. \<open>padded_frame_marker\<close> is valid, its four frame fields average 36
    characters, and its fifth frame value brings the sum to 244; with the three warnings
    of its validation the code returns 90 and Excellent where the claim gives 85 and Good.

  \<^item> \<open>null_metadata_marker\<close> is valid, \<open>validate_metadata\<close> returning True on \<open>None\<close>, and
    the claim gives it 100 and Excellent; the code evaluates \<open>field in None\<close>, raises
    TypeError and returns no score.
\<close>

theorem calculate_quality_score_departs:
  "validate_marker frame_fields padded_frame_marker = Inr (True, [], padded_frame_warnings) \<and>
   calculate_quality_score padded_frame_marker padded_frame_warnings = Inr (90, Excellent) \<and>
   spec_quality_score padded_frame_marker padded_frame_warnings = (85, Good) \<and>
   validate_marker frame_fields null_metadata_marker = Inr (True, [], []) \<and>
   calculate_quality_score null_metadata_marker [] = Inl TypeError \<and>
   spec_quality_score null_metadata_marker [] = (100, Excellent)"
proof -
  have "validate_marker frame_fields padded_frame_marker = Inr (True, [], padded_frame_warnings)"
    by code_simp
  moreover have
    "calculate_quality_score padded_frame_marker padded_frame_warnings = Inr (90, Excellent)"
    by (simp add: calculate_quality_score_def padded_frame_marker_def padded_frame_warnings_def
          conversation_template_def dict_get_def dict_get_default_def frame_total_def
          dict_keys_def MIN_EXAMPLES_def rating_of_def)
  moreover have "spec_quality_score padded_frame_marker padded_frame_warnings = (85, Good)"
    by (simp add: spec_quality_score_def spec_metadata_complete_def spec_example_count_def
          spec_average_frame_length_def spec_field_length_def padded_frame_marker_def
          padded_frame_warnings_def conversation_template_def dict_get_def MIN_EXAMPLES_def)
  moreover have "validate_marker frame_fields null_metadata_marker = Inr (True, [], [])"
    by code_simp
  moreover have "calculate_quality_score null_metadata_marker [] = Inl TypeError"
    by (simp add: calculate_quality_score_def null_metadata_marker_def dict_get_def py_in_def)
  moreover have "spec_quality_score null_metadata_marker [] = (100, Excellent)"
    by (simp add: spec_quality_score_def spec_metadata_complete_def spec_example_count_def
          spec_average_frame_length_def spec_field_length_def null_metadata_marker_def
          synthetic_examples_def conversation_template_def dict_get_def dict_has_def
          MIN_EXAMPLES_def)
  ultimately show ?thesis by simp
qed

section \<open>The direct strategy\<close>

text \<open>
  C4, as amended. The direct strategy returns only a truthy parse (\<open>if data:\<close>). For every
  document that \<open>safe_load\<close> parses to a truthy value, \<open>parse_with_recovery\<close> returns that
  value and enters neither the repair nor the line salvage. A document that parses to a
  falsy value (\<open>None\<close>, an empty mapping or sequence, zero, false, the empty string) is
  not returned although it is valid: when the repaired text parses to a truthy value the
  parser returns that value, from strategy 2; when the repaired text does not parse or
  parses to a falsy value, the parser returns the line salvage of the document, from
  strategy 3, or \<open>All parsing strategies failed\<close> when the salvage is empty.
\<close>

theorem parse_with_recovery_direct:
  "(load content = Some v \<and> truthy v \<longrightarrow>
      parse_with_recovery load (Some content) = (Some v, None, [Direct]))
   \<and> (load content = Some v \<and> \<not> truthy v
        \<and> load (repair_yaml_content content) = Some w \<and> truthy w \<longrightarrow>
      parse_with_recovery load (Some content) = (Some w, None, [Direct, Repair]))
   \<and> (load content = Some v \<and> \<not> truthy v
        \<and> load_fails load (repair_yaml_content content) \<longrightarrow>
      parse_with_recovery load (Some content) =
        (if line_salvage content = []
         then (None, Some AllStrategiesFailed, [Direct, Repair, LineSalvage])
         else (Some (PDict (line_salvage content)), None, [Direct, Repair, LineSalvage])))"
proof (intro conjI impI)
  assume "load content = Some v \<and> truthy v"
  then show "parse_with_recovery load (Some content) = (Some v, None, [Direct])"
    by (simp add: parse_with_recovery_def)
next
  assume "load content = Some v \<and> \<not> truthy v
        \<and> load (repair_yaml_content content) = Some w \<and> truthy w"
  then show "parse_with_recovery load (Some content) = (Some w, None, [Direct, Repair])"
    by (simp add: parse_with_recovery_def)
next
  assume "load content = Some v \<and> \<not> truthy v
        \<and> load_fails load (repair_yaml_content content)"
  then show "parse_with_recovery load (Some content) =
        (if line_salvage content = []
         then (None, Some AllStrategiesFailed, [Direct, Repair, LineSalvage])
         else (Some (PDict (line_salvage content)), None, [Direct, Repair, LineSalvage]))"
    by (auto simp: parse_with_recovery_def load_fails_def Let_def split: option.splits)
qed

text \<open>
  The claim as stated fails: \<open>{}\<close> is valid YAML, the empty mapping; the direct strategy
  drops it, the repaired text is the same, line salvage finds no key, and the document
  ends as \<open>All parsing strategies failed\<close>.
\<close>

theorem parse_with_recovery_valid_empty_counterexample:
  "yaml_stub ''{}'' = Some (PDict []) \<and>
   parse_with_recovery yaml_stub (Some ''{}'') =
     (None, Some AllStrategiesFailed, [Direct, Repair, LineSalvage])"
  by code_simp

theorem parse_with_recovery_direct_witness:
  "yaml_stub ''a: 1'' = Some (PDict [(''a'', PInt 1)]) \<and> truthy (PDict [(''a'', PInt 1)]) \<and>
   parse_with_recovery yaml_stub (Some ''a: 1'') = (Some (PDict [(''a'', PInt 1)]), None, [Direct])
   \<and> yaml_stub_null ''null'' = Some PNone \<and> \<not> truthy PNone \<and>
   repair_yaml_content ''null'' = ''null:'' \<and>
   yaml_stub_null ''null:'' = Some (PDict [(''null'', PNone)]) \<and>
   truthy (PDict [(''null'', PNone)]) \<and>
   parse_with_recovery yaml_stub_null (Some ''null'') =
     (Some (PDict [(''null'', PNone)]), None, [Direct, Repair])
   \<and> yaml_stub ''{}'' = Some (PDict []) \<and> \<not> truthy (PDict []) \<and>
   load_fails yaml_stub (repair_yaml_content ''{}'') \<and> line_salvage ''{}'' = [] \<and>
   parse_with_recovery yaml_stub (Some ''{}'') =
     (None, Some AllStrategiesFailed, [Direct, Repair, LineSalvage])"
proof -
  have 1: "yaml_stub ''a: 1'' = Some (PDict [(''a'', PInt 1)]) \<and> truthy (PDict [(''a'', PInt 1)])"
    by (simp add: yaml_stub_def)
  have 2: "yaml_stub_null ''null'' = Some PNone \<and> \<not> truthy PNone"
    by (simp add: yaml_stub_null_def)
  have r: "repair_yaml_content ''null'' = ''null:''" by code_simp
  have 3: "yaml_stub_null (repair_yaml_content ''null'') = Some (PDict [(''null'', PNone)])
           \<and> truthy (PDict [(''null'', PNone)])"
    unfolding r by (simp add: yaml_stub_null_def)
  have 4: "yaml_stub ''{}'' = Some (PDict []) \<and> \<not> truthy (PDict [])"
    by (simp add: yaml_stub_def)
  have 5: "load_fails yaml_stub (repair_yaml_content ''{}'')" by code_simp
  have 6: "line_salvage ''{}'' = []" by code_simp
  from parse_with_recovery_direct
         [where load = yaml_stub and content = "''a: 1''" and v = "PDict [(''a'', PInt 1)]"] 1
  have a: "parse_with_recovery yaml_stub (Some ''a: 1'') =
             (Some (PDict [(''a'', PInt 1)]), None, [Direct])"
    by simp
  from parse_with_recovery_direct
         [where load = yaml_stub_null and content = "''null''" and v = PNone
            and w = "PDict [(''null'', PNone)]"] 2 3
  have b: "parse_with_recovery yaml_stub_null (Some ''null'') =
             (Some (PDict [(''null'', PNone)]), None, [Direct, Repair])"
    by simp
  from parse_with_recovery_direct
         [where load = yaml_stub and content = "''{}''" and v = "PDict []"] 4 5 6
  have c: "parse_with_recovery yaml_stub (Some ''{}'') =
             (None, Some AllStrategiesFailed, [Direct, Repair, LineSalvage])"
    by simp
  from 1 2 r 3 4 5 6 a b c show ?thesis by simp
qed

section \<open>Line salvage\<close>

lemma pending_iff:
  "pending st \<longleftrightarrow> (\<exists>k. current_key st = Some k \<and> k \<noteq> [] \<and> current_value st \<noteq> [])"
  by (simp add: pending_def split: option.splits)

lemma keyed_iff: "keyed st \<longleftrightarrow> (\<exists>k. current_key st = Some k \<and> k \<noteq> [])"
  by (simp add: keyed_def split: option.splits)

lemma dict_set_not_empty: "dict_set k v d \<noteq> []"
  by (cases d) (auto split: if_splits)

lemma flush_live: "live st \<Longrightarrow> data (flush st) \<noteq> []"
  by (auto simp: live_def pending_iff flush_def dict_set_not_empty split: option.splits)

lemma flush_data: "data st \<noteq> [] \<Longrightarrow> data (flush st) \<noteq> []"
  by (auto simp: flush_def dict_set_not_empty split: option.splits)

lemma salvage_line_skipped: "is_skipped raw \<Longrightarrow> salvage_line st raw = st"
  by (auto simp: salvage_line_def is_skipped_def Let_def)

lemma salvage_line_key:
  "is_key_line raw \<Longrightarrow>
   salvage_line st raw =
     (flush st)\<lparr>current_key := Some (line_key raw),
                current_value := (if line_value raw \<noteq> [] then [line_value raw] else [])\<rparr>"
  by (auto simp: salvage_line_def is_key_line_def is_skipped_def line_key_def line_value_def
        Let_def)

lemma salvage_line_continuation:
  "is_continuation raw \<Longrightarrow>
   salvage_line st raw =
     (if keyed st then st\<lparr>current_value := current_value st @ [strip raw]\<rparr> else st)"
  by (auto simp: salvage_line_def is_continuation_def is_key_line_def is_skipped_def keyed_iff
        Let_def split: option.splits)

lemma line_kinds: "is_skipped raw \<or> is_key_line raw \<or> is_continuation raw"
  by (auto simp: is_continuation_def)

lemma salvage_line_live:
  assumes "live st"
  shows "live (salvage_line st raw)"
proof -
  consider "is_skipped raw" | "is_key_line raw" | "is_continuation raw"
    using line_kinds by blast
  then show ?thesis
  proof cases
    case 1
    with assms show ?thesis by (simp add: salvage_line_skipped)
  next
    case 2
    from assms have "data (flush st) \<noteq> []" by (rule flush_live)
    with 2 show ?thesis by (simp add: salvage_line_key live_def)
  next
    case 3
    with assms show ?thesis
      by (auto simp: salvage_line_continuation live_def pending_iff keyed_iff)
  qed
qed

lemma foldl_salvage_live: "live st \<Longrightarrow> live (foldl salvage_line st ls)"
  by (induction ls arbitrary: st) (simp_all add: salvage_line_live)

lemma foldl_salvage_skipped:
  "list_all is_skipped ls \<Longrightarrow> foldl salvage_line st ls = st"
  by (induction ls arbitrary: st) (simp_all add: salvage_line_skipped)

lemma salvage_key_then_value:
  assumes k: "is_key_line l" and n: "line_key l \<noteq> []"
    and v: "line_value l \<noteq> [] \<or>
            (\<exists>skipped c rest. post = skipped @ c # rest \<and> list_all is_skipped skipped
                               \<and> is_continuation c)"
  shows "live (foldl salvage_line (salvage_line st l) post)"
proof -
  define st1 where "st1 = salvage_line st l"
  have key1: "current_key st1 = Some (line_key l)"
    and val1: "current_value st1 = (if line_value l \<noteq> [] then [line_value l] else [])"
    using k by (simp_all add: st1_def salvage_line_key)
  from v show ?thesis
  proof
    assume "line_value l \<noteq> []"
    with key1 val1 n have "live st1" by (simp add: live_def pending_iff)
    then show ?thesis unfolding st1_def [symmetric] by (rule foldl_salvage_live)
  next
    assume "\<exists>skipped c rest. post = skipped @ c # rest \<and> list_all is_skipped skipped
                               \<and> is_continuation c"
    then obtain skipped c rest where post: "post = skipped @ c # rest"
      and s: "list_all is_skipped skipped" and c: "is_continuation c"
      by blast
    have kd: "keyed st1" using key1 n by (simp add: keyed_iff)
    have "foldl salvage_line st1 post =
            foldl salvage_line (salvage_line (foldl salvage_line st1 skipped) c) rest"
      by (simp add: post)
    also have "foldl salvage_line st1 skipped = st1"
      using s by (rule foldl_salvage_skipped)
    finally have e: "foldl salvage_line st1 post =
                       foldl salvage_line (salvage_line st1 c) rest" .
    have "salvage_line st1 c = st1\<lparr>current_value := current_value st1 @ [strip c]\<rparr>"
      using c kd by (simp add: salvage_line_continuation)
    then have "live (salvage_line st1 c)"
      using key1 n by (simp add: live_def pending_iff)
    then have "live (foldl salvage_line (salvage_line st1 c) rest)"
      by (rule foldl_salvage_live)
    with e show ?thesis by (simp add: st1_def)
  qed
qed

lemma line_salvage_not_empty:
  assumes "split_on NL content = pre @ l # post"
    and "is_key_line l" and "line_key l \<noteq> []"
    and "line_value l \<noteq> [] \<or>
            (\<exists>skipped c rest. post = skipped @ c # rest \<and> list_all is_skipped skipped
                               \<and> is_continuation c)"
  shows "line_salvage content \<noteq> []"
proof -
  let ?init = "\<lparr>data = [], current_key = None, current_value = []\<rparr>"
  have "foldl salvage_line ?init (split_on NL content) =
          foldl salvage_line (salvage_line (foldl salvage_line ?init pre) l) post"
    by (simp add: assms(1))
  moreover have "live (foldl salvage_line (salvage_line (foldl salvage_line ?init pre) l) post)"
    using assms(2-4) by (rule salvage_key_then_value)
  ultimately show ?thesis
    by (simp add: line_salvage_def flush_live)
qed


text \<open>
  C5, as amended. Line salvage stores a key only when the key is not empty and some value
  text was collected for it (\<open>if current_key and current_value\<close>, in the loop and after
  it). For every document on which the direct and the repaired parse yield nothing: if
  some line, not blank and not a comment, contains a colon, does not start with \<open>-\<close>, has
  text before its first colon, and has either text after that colon or, as the next line
  that is not blank or a comment, a line that continues its value, then line salvage
  returns a non-empty mapping, which \<open>parse_with_recovery\<close> returns.
\<close>

theorem line_salvage_recovers:
  assumes "load_fails load content" and "load_fails load (repair_yaml_content content)"
    and "split_on NL content = pre @ l # post"
    and "is_key_line l" and "line_key l \<noteq> []"
    and "line_value l \<noteq> [] \<or>
            (\<exists>skipped c rest. post = skipped @ c # rest \<and> list_all is_skipped skipped
                               \<and> is_continuation c)"
  shows "line_salvage content \<noteq> [] \<and>
         parse_with_recovery load (Some content) =
           (Some (PDict (line_salvage content)), None, [Direct, Repair, LineSalvage])"
proof -
  have ne: "line_salvage content \<noteq> []"
    using assms(3-6) by (rule line_salvage_not_empty)
  from assms(1,2) ne show ?thesis
    by (auto simp: parse_with_recovery_def load_fails_def Let_def split: option.splits)
qed

text \<open>
  The claim as stated fails: a key without value text is not stored. The unclosed \<open>{a:\<close>
  is no YAML, its repair is the same text, its one line holds a colon and does not start
  with \<open>-\<close>, and line salvage returns the empty mapping, so the document ends as
  \<open>All parsing strategies failed\<close>. The line \<open>key:\<close> of the claim is salvaged to the empty
  mapping as well.
\<close>

theorem line_salvage_key_only_counterexample:
  "load_fails yaml_stub ''{a:'' \<and> load_fails yaml_stub (repair_yaml_content ''{a:'') \<and>
   split_on NL ''{a:'' = [''{a:''] \<and> is_key_line ''{a:'' \<and> line_key ''{a:'' = ''{a'' \<and>
   line_salvage ''{a:'' = [] \<and>
   parse_with_recovery yaml_stub (Some ''{a:'') =
     (None, Some AllStrategiesFailed, [Direct, Repair, LineSalvage]) \<and>
   is_key_line ''key:'' \<and> line_salvage ''key:'' = []"
  by code_simp

lemma line_salvage_sample:
  "line_salvage (''name: x'' @ [NL] @ ''text:'' @ [NL] @ ''# note'' @ [NL] @ ''  more''
                 @ [NL] @ ''last:'') =
     [(''name'', PStr ''x''), (''text'', PStr ''more'')]"
  by code_simp

theorem line_salvage_recovers_witness:
  "load_fails yaml_stub ''{a: 1'' \<and> load_fails yaml_stub (repair_yaml_content ''{a: 1'') \<and>
   split_on NL ''{a: 1'' = [] @ ''{a: 1'' # [] \<and>
   is_key_line ''{a: 1'' \<and> line_key ''{a: 1'' \<noteq> [] \<and> line_value ''{a: 1'' \<noteq> [] \<and>
   line_salvage ''{a: 1'' = [(''{a'', PStr ''1'')] \<and>
   parse_with_recovery yaml_stub (Some ''{a: 1'') =
     (Some (PDict [(''{a'', PStr ''1'')]), None, [Direct, Repair, LineSalvage])"
proof -
  have 1: "load_fails yaml_stub ''{a: 1''" by code_simp
  have 2: "load_fails yaml_stub (repair_yaml_content ''{a: 1'')" by code_simp
  have 3: "split_on NL ''{a: 1'' = [] @ ''{a: 1'' # []" by code_simp
  have 4: "is_key_line ''{a: 1''" by code_simp
  have 5: "line_key ''{a: 1'' \<noteq> []" by code_simp
  have 6: "line_value ''{a: 1'' \<noteq> []" by code_simp
  have 7: "line_salvage ''{a: 1'' = [(''{a'', PStr ''1'')]" by code_simp
  from 6 have v6: "line_value ''{a: 1'' \<noteq> [] \<or>
            (\<exists>skipped c rest. [] = skipped @ c # rest \<and> list_all is_skipped skipped
                               \<and> is_continuation c)" ..
  from line_salvage_recovers [OF 1 2 3 4 5 v6] 1 2 3 4 5 6 7
  show ?thesis by simp
qed

section \<open>Repairing a repaired text\<close>

subsection \<open>Removing separators and tabs\<close>

lemma startswith_Nil [simp]: "startswith [] s"
  by (simp add: startswith_def)

lemma startswith_Cons_Nil [simp]: "\<not> startswith (p # ps) []"
  by (simp add: startswith_def)

lemma startswith_Cons_Cons:
  "startswith (p # ps) (c # cs) \<longleftrightarrow> p = c \<and> startswith ps cs"
  by (auto simp: startswith_def)

lemma dash_free_mono: "dash_free n s \<Longrightarrow> m \<le> n \<Longrightarrow> dash_free m s"
  by (induction s arbitrary: n m) (auto split: if_splits)

lemma dash_free_append_other:
  "c \<noteq> CHR ''-'' \<Longrightarrow> dash_free n (u @ c # v) \<longleftrightarrow> dash_free n u \<and> dash_free 0 v"
  by (induction u arbitrary: n) auto

lemma dash_free_prefix: "dash_free n (u @ v) \<Longrightarrow> dash_free n u"
  by (induction u arbitrary: n) (auto split: if_splits)

lemma dash_free_suffix: "dash_free n (u @ v) \<Longrightarrow> dash_free 0 v"
proof (induction u arbitrary: n)
  case Nil
  then show ?case by (simp add: dash_free_mono)
next
  case (Cons c u)
  then show ?case by (auto split: if_splits)
qed

lemma dash_free_no_separator:
  assumes "dash_free n s"
  shows "\<not> startswith ''---'' s"
proof
  assume "startswith ''---'' s"
  then obtain r where "s = ''---'' @ r"
    by (metis startswith_def append_take_drop_id)
  with assms show False by simp
qed

lemma replace_separator_id: "dash_free n s \<Longrightarrow> replace ''---'' '''' s = s"
proof (induction s arbitrary: n)
  case Nil
  show ?case by simp
next
  case (Cons c cs)
  from Cons.prems have "\<not> startswith ''---'' (c # cs)" by (rule dash_free_no_separator)
  moreover from Cons.prems obtain m where "dash_free m cs" by (auto split: if_splits)
  ultimately show ?case using Cons.IH by simp
qed

lemma replace_separator_dash_free:
  "dash_free 0 (replace ''---'' '''' s)
   \<and> (\<not> startswith ''--'' s \<longrightarrow> dash_free (Suc 0) (replace ''---'' '''' s))
   \<and> (\<not> startswith ''-'' s \<longrightarrow> dash_free (Suc (Suc 0)) (replace ''---'' '''' s))"
proof (induction "''---''" "[] :: string" s rule: replace.induct)
  case 1
  show ?case by simp
next
  case (2 c cs)
  show ?case
  proof (cases "startswith ''---'' (c # cs)")
    case True
    then have "replace ''---'' '''' (c # cs) =
                 replace ''---'' '''' (drop (length ''---'') (c # cs))"
      by simp
    moreover from True obtain r where "c # cs = ''---'' @ r"
      by (metis startswith_def append_take_drop_id)
    then have "startswith ''--'' (c # cs)" "startswith ''-'' (c # cs)"
      by (simp_all add: startswith_Cons_Cons)
    ultimately show ?thesis using 2(2) True by simp
  next
    case False
    then have r: "replace ''---'' '''' (c # cs) = c # replace ''---'' '''' cs" by simp
    from 2(3) False have IH:
      "dash_free 0 (replace ''---'' '''' cs)"
      "\<not> startswith ''--'' cs \<Longrightarrow> dash_free (Suc 0) (replace ''---'' '''' cs)"
      "\<not> startswith ''-'' cs \<Longrightarrow> dash_free (Suc (Suc 0)) (replace ''---'' '''' cs)"
      by simp_all
    show ?thesis
    proof (cases "c = CHR ''-''")
      case True
      with False have "\<not> startswith ''--'' cs" by (simp add: startswith_Cons_Cons)
      then have a: "dash_free (Suc 0) (replace ''---'' '''' cs)" by (rule IH(2))
      have b: "\<not> startswith ''--'' (c # cs) \<Longrightarrow> dash_free (Suc (Suc 0)) (replace ''---'' '''' cs)"
        using True IH(3) by (simp add: startswith_Cons_Cons)
      from a b True show ?thesis unfolding r by (simp add: startswith_Cons_Cons)
    next
      case False
      with IH(1) show ?thesis unfolding r by (simp add: startswith_Cons_Cons)
    qed
  qed
qed

lemma replace_char:
  "replace [x] new (c # cs) =
     (if c = x then new @ replace [x] new cs else c # replace [x] new cs)"
  by (simp add: startswith_Cons_Cons)

lemma replace_tab_id: "TAB \<notin> set s \<Longrightarrow> replace [TAB] ''  '' s = s"
  by (induction s) (auto simp: replace_char simp del: replace.simps(2))

lemma replace_tab_no_tab: "TAB \<notin> set (replace [TAB] ''  '' s)"
  by (induction s) (auto simp: replace_char TAB_def simp del: replace.simps(2))

lemma replace_tab_dash_free: "dash_free n s \<Longrightarrow> dash_free n (replace [TAB] ''  '' s)"
proof (induction s arbitrary: n)
  case Nil
  then show ?case by simp
next
  case (Cons c cs)
  show ?case
  proof (cases "c = TAB")
    case True
    with Cons.prems have "dash_free 0 cs" by (simp add: TAB_def)
    then have "dash_free 0 (replace [TAB] ''  '' cs)" by (rule Cons.IH)
    with True show ?thesis by (simp add: replace_char del: replace.simps(2))
  next
    case False
    with Cons show ?thesis by (auto simp: replace_char simp del: replace.simps(2) split: if_splits)
  qed
qed

subsection \<open>Lines\<close>

lemma split_on_not_Nil [simp]: "split_on sep s \<noteq> []"
  by (induction s) (auto split: list.splits)

lemma join_Cons: "ls \<noteq> [] \<Longrightarrow> join sep (l # ls) = l @ sep @ join sep ls"
  by (cases ls) simp_all

lemma join_split_on: "join [sep] (split_on sep s) = s"
proof (induction s)
  case Nil
  show ?case by simp
next
  case (Cons c cs)
  obtain l ls where sp: "split_on sep cs = l # ls"
    by (cases "split_on sep cs") simp_all
  show ?case
  proof (cases "c = sep")
    case True
    then show ?thesis using Cons by (simp add: join_Cons)
  next
    case False
    with Cons sp show ?thesis by (cases ls) simp_all
  qed
qed

lemma split_on_line: "l \<in> set (split_on sep s) \<Longrightarrow> sep \<notin> set l"
proof (induction s arbitrary: l)
  case Nil
  then show ?case by simp
next
  case (Cons c cs)
  obtain k ks where sp: "split_on sep cs = k # ks"
    by (cases "split_on sep cs") simp_all
  with Cons show ?case by (auto split: if_splits)
qed

lemma split_on_single: "sep \<notin> set u \<Longrightarrow> split_on sep u = [u]"
  by (induction u) auto

lemma split_on_append: "split_on sep (u @ sep # v) = split_on sep u @ split_on sep v"
proof (induction u)
  case Nil
  show ?case by simp
next
  case (Cons c u)
  obtain k ks where sp: "split_on sep u = k # ks"
    by (cases "split_on sep u") simp_all
  with Cons show ?case by simp
qed

lemma split_on_join:
  assumes "ls \<noteq> []" and "\<forall>l\<in>set ls. sep \<notin> set l"
  shows "split_on sep (join [sep] ls) = ls"
  using assms
proof (induction "[sep]" ls rule: join.induct)
  case 1
  then show ?case by simp
next
  case (2 l)
  then show ?case by (simp add: split_on_single)
next
  case (3 l m ls)
  then have "split_on sep (join [sep] (m # ls)) = m # ls" by simp
  moreover from 3 have "split_on sep l = [l]" by (simp add: split_on_single)
  ultimately show ?case by (simp add: split_on_append)
qed

lemma dash_free_join:
  "dash_free 0 (join [NL] ls) \<longleftrightarrow> (\<forall>l\<in>set ls. dash_free 0 l)"
proof (induction "[NL]" ls rule: join.induct)
  case 1
  show ?case by simp
next
  case (2 l)
  show ?case by simp
next
  case (3 l m ls)
  have "NL \<noteq> CHR ''-''" by (simp add: NL_def)
  then have "dash_free 0 (l @ NL # join [NL] (m # ls)) \<longleftrightarrow>
               dash_free 0 l \<and> dash_free 0 (join [NL] (m # ls))"
    by (rule dash_free_append_other)
  with 3 show ?case by simp
qed

lemma set_join: "set (join [NL] ls) \<subseteq> \<Union> (set ` set ls) \<union> {NL}"
  by (induction "[NL]" ls rule: join.induct) auto

subsection \<open>Inferred keys\<close>

lemma rstrip_prefix: "\<exists>v. l = rstrip l @ v"
proof -
  have "l = rstrip l @ rev (takeWhile is_space (rev l))"
    unfolding rstrip_def by (metis rev_append rev_rev_ident takeWhile_dropWhile_id)
  then show ?thesis ..
qed

lemma set_split_on_line: "l \<in> set (split_on sep s) \<Longrightarrow> set l \<subseteq> set s"
proof (induction s arbitrary: l)
  case Nil
  then show ?case by simp
next
  case (Cons c cs)
  obtain k ks where sp: "split_on sep cs = k # ks"
    by (cases "split_on sep cs") simp_all
  with Cons show ?case by (fastforce split: if_splits)
qed

lemma set_rstrip: "set (rstrip l) \<subseteq> set l"
  using rstrip_prefix [of l] by (metis Un_upper1 set_append)

lemma repair_line_idem: "repair_line (repair_line l) = repair_line l"
  by (simp add: repair_line_def)

lemma set_repair_line: "set (repair_line l) \<subseteq> insert (CHR '':'') (set l)"
  using set_rstrip [of l] by (auto simp: repair_line_def)

lemma repair_line_dash_free:
  assumes "dash_free n l"
  shows "dash_free n (repair_line l)"
proof -
  obtain v where "l = rstrip l @ v" using rstrip_prefix by blast
  with assms have "dash_free n (rstrip l)" by (metis dash_free_prefix)
  then have "dash_free n (rstrip l @ CHR '':'' # [])"
    by (simp add: dash_free_append_other)
  with assms show ?thesis by (simp add: repair_line_def)
qed

lemma split_on_repair_lines:
  "split_on NL (repair_lines s) = map repair_line (split_on NL s)"
proof -
  have "NL \<notin> set (repair_line l)" if "l \<in> set (split_on NL s)" for l
  proof -
    from that have "NL \<notin> set l" by (rule split_on_line)
    with set_repair_line [of l] show ?thesis by (auto simp: NL_def)
  qed
  then have "\<forall>l\<in>set (map repair_line (split_on NL s)). NL \<notin> set l" by auto
  then show ?thesis unfolding repair_lines_def by (intro split_on_join) simp_all
qed

lemma repair_lines_stable:
  "l \<in> set (split_on NL (repair_lines s)) \<Longrightarrow> repair_line l = l"
  by (auto simp: split_on_repair_lines repair_line_idem)

lemma repair_lines_id:
  assumes "\<forall>l\<in>set (split_on NL s). repair_line l = l"
  shows "repair_lines s = s"
proof -
  from assms have "map repair_line (split_on NL s) = split_on NL s"
    by (simp add: map_idI)
  then show ?thesis by (simp add: repair_lines_def join_split_on)
qed

lemma dash_free_lines: "dash_free 0 s \<longleftrightarrow> (\<forall>l\<in>set (split_on NL s). dash_free 0 l)"
  using dash_free_join [of "split_on NL s"] by (simp add: join_split_on)

lemma repair_lines_dash_free:
  assumes "dash_free 0 s"
  shows "dash_free 0 (repair_lines s)"
  using assms
  by (simp add: dash_free_lines [of "repair_lines s"] dash_free_lines [of s]
        split_on_repair_lines repair_line_dash_free)

lemma repair_lines_no_tab:
  assumes "TAB \<notin> set s"
  shows "TAB \<notin> set (repair_lines s)"
proof
  assume "TAB \<in> set (repair_lines s)"
  with set_join [of "map repair_line (split_on NL s)"]
  obtain l where l: "l \<in> set (split_on NL s)" and t: "TAB \<in> set (repair_line l)"
    by (auto simp: repair_lines_def TAB_def NL_def)
  from t set_repair_line [of l] have "TAB \<in> set l" by (auto simp: TAB_def)
  moreover have "set l \<subseteq> set s" using l by (rule set_split_on_line)
  ultimately show False using assms by blast
qed

subsection \<open>Quoted list items\<close>

lemma is_space_simps [simp]:
  "is_space NL" "is_space CHR '' ''" "\<not> is_space CHR ''-''" "\<not> is_space DQ"
  by (simp_all add: is_space_def NL_def DQ_def)

lemma char_neqs [simp]:
  "NL \<noteq> CHR ''-''" "NL \<noteq> DQ" "NL \<noteq> CHR '' ''" "DQ \<noteq> CHR ''-''" "DQ \<noteq> NL"
  "CHR ''-'' \<noteq> NL" "CHR ''-'' \<noteq> DQ" "CHR '' '' \<noteq> NL" "DQ \<noteq> CHR '' ''"
  "TAB \<noteq> CHR ''-''" "TAB \<noteq> DQ" "TAB \<noteq> CHR '' ''" "TAB \<noteq> NL"
  by (simp_all add: NL_def DQ_def TAB_def)

lemma sub_list_items_Nil [simp]: "sub_list_items b [] = []"
  by (simp add: sub_list_items.simps)

lemma sub_list_items_False:
  "sub_list_items False (c # cs) = c # sub_list_items (c = NL) cs"
  by (simp add: sub_list_items.simps)

lemma sub_list_items_match:
  "list_item_match (c # cs) = Some (g, rest) \<Longrightarrow>
   sub_list_items True (c # cs) = ''  - '' @ [DQ] @ g @ [DQ] @ sub_list_items False rest"
  by (simp add: sub_list_items.simps)

lemma sub_list_items_no_match:
  "list_item_match (c # cs) = None \<Longrightarrow>
   sub_list_items True (c # cs) = c # sub_list_items (c = NL) cs"
  by (simp add: sub_list_items.simps)

lemma quoted_restD:
  assumes "quoted_rest u = Some (g, rest)"
  shows "u = g @ DQ # rest \<and> g \<noteq> [] \<and> NL \<notin> set g \<and> (rest = [] \<or> (\<exists>s'. rest = NL # s'))"
proof -
  define y where "y = takeWhile (\<lambda>x. x \<noteq> NL) u"
  from assms have len: "2 \<le> length y" and l: "last y = DQ" and g: "g = butlast y"
    and r: "rest = dropWhile (\<lambda>x. x \<noteq> NL) u"
    by (auto simp: quoted_rest_def Let_def y_def split: if_splits)
  from len have "y \<noteq> []" by auto
  then have y: "y = g @ [DQ]" using l g by (metis append_butlast_last_id)
  have "u = y @ rest" by (simp add: y_def r)
  then have 1: "u = g @ DQ # rest" by (simp add: y)
  from len y have 2: "g \<noteq> []" by auto
  have "NL \<notin> set y" unfolding y_def by (auto dest: set_takeWhileD)
  then have 3: "NL \<notin> set g" by (simp add: y)
  have 4: "rest = [] \<or> (\<exists>s'. rest = NL # s')"
  proof (cases rest)
    case Nil
    then show ?thesis by simp
  next
    case (Cons a s')
    with r have d: "dropWhile (\<lambda>x. x \<noteq> NL) u = a # s'" by simp
    with hd_dropWhile [of "\<lambda>x. x \<noteq> NL" u] have "a = NL" by simp
    with Cons show ?thesis by simp
  qed
  from 1 2 3 4 show ?thesis by blast
qed

lemma quoted_rest_line:
  assumes "g \<noteq> []" and "NL \<notin> set g" and "rest = [] \<or> (\<exists>s'. rest = NL # s')"
  shows "quoted_rest (g @ DQ # rest) = Some (g, rest)"
proof -
  have "\<forall>x\<in>set (g @ [DQ]). x \<noteq> NL" using assms(2) by auto
  moreover from assms(3) have "rest = [] \<or> \<not> (hd rest \<noteq> NL)" by auto
  ultimately have "takeWhile (\<lambda>x. x \<noteq> NL) ((g @ [DQ]) @ rest) = g @ [DQ]"
    and "dropWhile (\<lambda>x. x \<noteq> NL) ((g @ [DQ]) @ rest) = rest"
    by (cases rest, simp, simp)+
  with assms(1) show ?thesis
    by (simp add: quoted_rest_def Let_def Suc_le_eq)
qed

lemma list_item_matchD:
  assumes "list_item_match s = Some (g, rest)"
  obtains w1 w2 where "s = w1 @ CHR ''-'' # w2 @ DQ # g @ DQ # rest"
    and "\<forall>c\<in>set w1. is_space c" and "\<forall>c\<in>set w2. is_space c"
    and "g \<noteq> []" and "NL \<notin> set g" and "rest = [] \<or> (\<exists>s'. rest = NL # s')"
proof -
  from assms obtain t u where
    1: "dropWhile is_space s = CHR ''-'' # t" and
    2: "dropWhile is_space t = DQ # u" and
    3: "quoted_rest u = Some (g, rest)"
    by (auto simp: list_item_match_def after_dash_def split: list.splits if_splits)
  define w1 where "w1 = takeWhile is_space s"
  define w2 where "w2 = takeWhile is_space t"
  have a: "s = w1 @ CHR ''-'' # t"
    unfolding w1_def using takeWhile_dropWhile_id [of is_space s] by (simp only: 1)
  have b: "t = w2 @ DQ # u"
    unfolding w2_def using takeWhile_dropWhile_id [of is_space t] by (simp only: 2)
  from quoted_restD [OF 3] have c: "u = g @ DQ # rest" and g: "g \<noteq> []"
    and n: "NL \<notin> set g" and r: "rest = [] \<or> (\<exists>s'. rest = NL # s')" by simp_all
  have e: "s = w1 @ CHR ''-'' # w2 @ DQ # g @ DQ # rest"
    by (subst a, subst b, subst c) (rule refl)
  have s1: "\<forall>c\<in>set w1. is_space c" and s2: "\<forall>c\<in>set w2. is_space c"
    unfolding w1_def w2_def by (auto dest: set_takeWhileD)
  from e s1 s2 g n r show ?thesis by (rule that)
qed

lemma list_item_match_replacement:
  assumes "g \<noteq> []" and "NL \<notin> set g" and "rest = [] \<or> (\<exists>s'. rest = NL # s')"
  shows "list_item_match (''  - '' @ [DQ] @ g @ [DQ] @ rest) = Some (g, rest)"
  using quoted_rest_line [OF assms]
  by (simp add: list_item_match_def after_dash_def)

lemma after_dash_simps [simp]:
  "after_dash [] = None"
  "after_dash (c # t) =
     (if is_space c then after_dash t else if c = DQ then quoted_rest t else None)"
  by (simp_all add: after_dash_def)

lemma list_item_match_simps [simp]:
  "list_item_match [] = None"
  "list_item_match (c # t) =
     (if is_space c then list_item_match t else if c = CHR ''-'' then after_dash t else None)"
  by (simp_all add: list_item_match_def)

lemma takeWhile_sub_list_items:
  "takeWhile (\<lambda>x. x \<noteq> NL) (sub_list_items False s) = takeWhile (\<lambda>x. x \<noteq> NL) s"
  by (induction s) (simp_all add: sub_list_items_False)

lemma quoted_rest_sub_list_items:
  "quoted_rest u = None \<Longrightarrow> quoted_rest (sub_list_items False u) = None"
  by (simp add: quoted_rest_def Let_def takeWhile_sub_list_items split: if_splits)

lemma sub_list_items_copy:
  "(if bol then list_item_match (c # cs) else None) = None \<Longrightarrow>
   sub_list_items bol (c # cs) = c # sub_list_items (c = NL) cs"
  by (simp add: sub_list_items.simps)

lemma after_dash_sub_list_items:
  "after_dash s = None \<Longrightarrow> after_dash (sub_list_items bol s) = None"
proof (induction bol s rule: sub_list_items.induct)
  case (1 bol)
  show ?case by simp
next
  case (2 bol c cs)
  show ?case
  proof (cases "if bol then list_item_match (c # cs) else None")
    case None
    then have out: "sub_list_items bol (c # cs) = c # sub_list_items (c = NL) cs"
      by (rule sub_list_items_copy)
    show ?thesis
    proof (cases "is_space c")
      case True
      with "2.prems" have "after_dash cs = None" by simp
      with None "2.IH"(1) have "after_dash (sub_list_items (c = NL) cs) = None" by blast
      with True show ?thesis by (simp add: out)
    next
      case False
      then have "c \<noteq> NL" by auto
      with False "2.prems" show ?thesis
        by (auto simp: out quoted_rest_sub_list_items)
    qed
  next
    case (Some m)
    obtain g rest where m: "m = (g, rest)" by (cases m)
    from Some m have "bol" and "list_item_match (c # cs) = Some (g, rest)"
      by (simp_all split: if_splits del: list_item_match_simps)
    then have "sub_list_items bol (c # cs) =
                 ''  - '' @ [DQ] @ g @ [DQ] @ sub_list_items False rest"
      by (simp add: sub_list_items_match)
    then show ?thesis by simp
  qed
qed

lemma list_item_match_sub_list_items:
  "list_item_match s = None \<Longrightarrow> list_item_match (sub_list_items bol s) = None"
proof (induction bol s rule: sub_list_items.induct)
  case (1 bol)
  show ?case by simp
next
  case (2 bol c cs)
  from "2.prems" have none: "(if bol then list_item_match (c # cs) else None) = None"
    by simp
  then have out: "sub_list_items bol (c # cs) = c # sub_list_items (c = NL) cs"
    by (rule sub_list_items_copy)
  show ?case
  proof (cases "is_space c")
    case True
    with "2.prems" have "list_item_match cs = None" by simp
    with none "2.IH"(1) have "list_item_match (sub_list_items (c = NL) cs) = None" by blast
    with True show ?thesis by (simp add: out)
  next
    case False
    then have "c \<noteq> NL" by auto
    with False "2.prems" show ?thesis
      by (auto simp: out after_dash_sub_list_items)
  qed
qed

lemma list_item_match_copy:
  assumes "list_item_match (c # cs) = None"
  shows "list_item_match (c # sub_list_items (c = NL) cs) = None"
proof (cases "is_space c")
  case True
  with assms have "list_item_match cs = None" by simp
  then have "list_item_match (sub_list_items (c = NL) cs) = None"
    by (rule list_item_match_sub_list_items)
  with True show ?thesis by simp
next
  case False
  then have "c \<noteq> NL" by auto
  with False assms show ?thesis by (auto simp: after_dash_sub_list_items)
qed

lemma sub_list_items_rest:
  assumes "rest = [] \<or> (\<exists>s'. rest = NL # s')"
  shows "sub_list_items False rest = [] \<or> (\<exists>s'. sub_list_items False rest = NL # s')"
  using assms by (auto simp: sub_list_items_False)

lemma sub_list_items_idem:
  "sub_list_items bol (sub_list_items bol s) = sub_list_items bol s"
proof (induction bol s rule: sub_list_items.induct)
  case (1 bol)
  show ?case by simp
next
  case (2 bol c cs)
  show ?case
  proof (cases "if bol then list_item_match (c # cs) else None")
    case None
    then have out: "sub_list_items bol (c # cs) = c # sub_list_items (c = NL) cs"
      by (rule sub_list_items_copy)
    have "list_item_match (c # sub_list_items (c = NL) cs) = None" if "bol"
    proof -
      from None that have "list_item_match (c # cs) = None" by (simp only: if_True)
      then show ?thesis by (rule list_item_match_copy)
    qed
    then have "(if bol then list_item_match (c # sub_list_items (c = NL) cs) else None) = None"
      by (simp only: split: if_splits) blast
    then have "sub_list_items bol (c # sub_list_items (c = NL) cs) =
                 c # sub_list_items (c = NL) (sub_list_items (c = NL) cs)"
      by (rule sub_list_items_copy)
    with "2.IH"(1) [OF None] show ?thesis by (simp add: out)
  next
    case (Some m)
    obtain g rest where m: "m = (g, rest)" by (cases m)
    from Some m have b: "bol" and lm: "list_item_match (c # cs) = Some (g, rest)"
      by (simp_all split: if_splits del: list_item_match_simps)
    define t where "t = sub_list_items False rest"
    from lm have out: "sub_list_items True (c # cs) = ''  - '' @ [DQ] @ g @ [DQ] @ t"
      by (simp add: sub_list_items_match t_def)
    from lm obtain g1: "g \<noteq> []" and g2: "NL \<notin> set g"
      and r: "rest = [] \<or> (\<exists>s'. rest = NL # s')"
      by (rule list_item_matchD)
    from r have "t = [] \<or> (\<exists>s'. t = NL # s')" unfolding t_def by (rule sub_list_items_rest)
    with g1 g2 have "list_item_match (''  - '' @ [DQ] @ g @ [DQ] @ t) = Some (g, t)"
      by (rule list_item_match_replacement)
    then have "list_item_match (CHR '' '' # '' - '' @ [DQ] @ g @ [DQ] @ t) = Some (g, t)"
      by simp
    then have "sub_list_items True (CHR '' '' # '' - '' @ [DQ] @ g @ [DQ] @ t) =
                 ''  - '' @ [DQ] @ g @ [DQ] @ sub_list_items False t"
      by (rule sub_list_items_match)
    moreover have "sub_list_items False t = t"
      unfolding t_def using Some m by (rule "2.IH"(2) [OF _ sym])
    ultimately show ?thesis using b by (simp add: out)
  qed
qed

lemma sub_list_items_dash_free:
  "dash_free n s \<Longrightarrow> dash_free n (sub_list_items bol s)"
proof (induction bol s arbitrary: n rule: sub_list_items.induct)
  case (1 bol)
  show ?case by simp
next
  case (2 bol c cs)
  show ?case
  proof (cases "if bol then list_item_match (c # cs) else None")
    case None
    then have out: "sub_list_items bol (c # cs) = c # sub_list_items (c = NL) cs"
      by (rule sub_list_items_copy)
    from "2.prems" "2.IH"(1) [OF None] show ?thesis
      by (auto simp: out split: if_splits)
  next
    case (Some m)
    obtain g rest where m: "m = (g, rest)" by (cases m)
    from Some m have lm: "list_item_match (c # cs) = Some (g, rest)"
      by (simp_all split: if_splits del: list_item_match_simps)
    from Some m have b: "bol" by (simp split: if_splits)
    from lm obtain w1 w2 where s: "c # cs = w1 @ CHR ''-'' # w2 @ DQ # g @ DQ # rest"
      by (rule list_item_matchD)
    with "2.prems" have "dash_free n ((w1 @ CHR ''-'' # w2) @ (DQ # g @ DQ # rest))" by simp
    then have "dash_free 0 (DQ # g @ DQ # rest)" by (rule dash_free_suffix)
    then have "dash_free 0 (g @ DQ # rest)" by simp
    then have g: "dash_free 0 g" and "dash_free 0 rest" by (simp_all add: dash_free_append_other)
    then have "dash_free 0 (sub_list_items False rest)"
      using Some m by (intro "2.IH"(2) [OF _ sym]) simp_all
    with g have "dash_free 0 (g @ DQ # sub_list_items False rest)"
      by (simp add: dash_free_append_other)
    then show ?thesis using b lm by (simp add: sub_list_items_match del: list_item_match_simps)
  qed
qed

lemma sub_list_items_no_tab:
  "TAB \<notin> set s \<Longrightarrow> TAB \<notin> set (sub_list_items bol s)"
proof (induction bol s rule: sub_list_items.induct)
  case (1 bol)
  show ?case by simp
next
  case (2 bol c cs)
  show ?case
  proof (cases "if bol then list_item_match (c # cs) else None")
    case None
    then have out: "sub_list_items bol (c # cs) = c # sub_list_items (c = NL) cs"
      by (rule sub_list_items_copy)
    from "2.prems" "2.IH"(1) [OF None] show ?thesis by (simp add: out)
  next
    case (Some m)
    obtain g rest where m: "m = (g, rest)" by (cases m)
    from Some m have lm: "list_item_match (c # cs) = Some (g, rest)"
      by (simp_all split: if_splits del: list_item_match_simps)
    from Some m have b: "bol" by (simp split: if_splits)
    from lm obtain w1 w2 where s: "c # cs = w1 @ CHR ''-'' # w2 @ DQ # g @ DQ # rest"
      by (rule list_item_matchD)
    with "2.prems" have "TAB \<notin> set (w1 @ CHR ''-'' # w2 @ DQ # g @ DQ # rest)" by simp
    then have g: "TAB \<notin> set g" and r: "TAB \<notin> set rest" by simp_all
    from r have "TAB \<notin> set (sub_list_items False rest)"
      using Some m by (intro "2.IH"(2) [OF _ sym]) simp_all
    with g show ?thesis using b lm
      by (simp add: sub_list_items_match del: list_item_match_simps)
  qed
qed

lemma sub_list_items_line:
  "sub_list_items False s =
     takeWhile (\<lambda>x. x \<noteq> NL) s @
     (case dropWhile (\<lambda>x. x \<noteq> NL) s of
        [] \<Rightarrow> []
      | c # s' \<Rightarrow> NL # sub_list_items True s')"
  by (induction s) (simp_all add: sub_list_items_False)

lemma stable_lines_append:
  "stable_lines (u @ NL # v) \<longleftrightarrow> stable_lines u \<and> stable_lines v"
  by (simp add: stable_lines_def split_on_append)

lemma stable_lines_single: "NL \<notin> set u \<Longrightarrow> stable_lines u \<longleftrightarrow> repair_line u = u"
  by (simp add: stable_lines_def split_on_single)

lemma rstrip_Cons: "\<not> is_space c \<Longrightarrow> rstrip (c # x) = c # rstrip x"
  by (simp add: rstrip_def dropWhile_append)

lemma replacement_stable:
  "repair_line (''  - '' @ [DQ] @ g @ [DQ]) = ''  - '' @ [DQ] @ g @ [DQ]"
proof -
  have "strip (''  - '' @ [DQ] @ g @ [DQ]) = CHR ''-'' # rstrip ('' '' @ [DQ] @ g @ [DQ])"
    by (simp add: strip_def lstrip_def rstrip_Cons)
  then have "startswith ''-'' (strip (''  - '' @ [DQ] @ g @ [DQ]))"
    by (simp add: startswith_Cons_Cons)
  then show ?thesis by (simp add: repair_line_def)
qed

lemma sub_list_items_stable_lines:
  "stable_lines s \<Longrightarrow> stable_lines (sub_list_items True s)"
proof (induction "length s" arbitrary: s rule: less_induct)
  case less
  have copy: "stable_lines (sub_list_items False s)"
  proof (cases "dropWhile (\<lambda>x. x \<noteq> NL) s")
    case Nil
    have "sub_list_items False s = takeWhile (\<lambda>x. x \<noteq> NL) s"
      by (subst sub_list_items_line) (simp only: Nil list.case append_Nil2)
    also have "\<dots> = s" using Nil by simp
    finally show ?thesis using less.prems by simp
  next
    case (Cons a s')
    define y where "y = takeWhile (\<lambda>x. x \<noteq> NL) s"
    from Cons hd_dropWhile [of "\<lambda>x. x \<noteq> NL" s] have "a = NL" by simp
    with Cons have s: "s = y @ NL # s'"
      unfolding y_def by (metis takeWhile_dropWhile_id)
    then have "length s' < length s" by simp
    moreover from less.prems s have "stable_lines y" "stable_lines s'"
      by (simp_all add: stable_lines_append)
    ultimately have "stable_lines (sub_list_items True s')" using less.hyps by blast
    moreover have "sub_list_items False s = y @ NL # sub_list_items True s'"
      by (subst sub_list_items_line) (simp only: Cons y_def list.case)
    ultimately show ?thesis using \<open>stable_lines y\<close> by (simp add: stable_lines_append)
  qed
  show ?case
  proof (cases s)
    case Nil
    with less.prems show ?thesis by simp
  next
    case (Cons c cs)
    show ?thesis
    proof (cases "list_item_match (c # cs)")
      case None
      then have "sub_list_items True (c # cs) = c # sub_list_items (c = NL) cs"
        by (rule sub_list_items_no_match)
      then have "sub_list_items True s = sub_list_items False s"
        by (simp add: Cons sub_list_items_False)
      with copy show ?thesis by simp
    next
      case (Some m)
      obtain g rest where m: "m = (g, rest)" by (cases m)
      with Some have lm: "list_item_match (c # cs) = Some (g, rest)" by simp
      then have out: "sub_list_items True s =
                        (''  - '' @ [DQ] @ g @ [DQ]) @ sub_list_items False rest"
        by (simp add: Cons sub_list_items_match del: list_item_match_simps)
      from lm obtain w1 w2 where s: "c # cs = w1 @ CHR ''-'' # w2 @ DQ # g @ DQ # rest"
        and g2: "NL \<notin> set g" and r: "rest = [] \<or> (\<exists>s'. rest = NL # s')"
        by (rule list_item_matchD)
      have nl: "NL \<notin> set (''  - '' @ [DQ] @ g @ [DQ])" using g2 by simp
      have st: "stable_lines (''  - '' @ [DQ] @ g @ [DQ])"
        using stable_lines_single [OF nl] replacement_stable [of g] by blast
      from r show ?thesis
      proof
        assume "rest = []"
        with st show ?thesis by (simp add: out)
      next
        assume "\<exists>s'. rest = NL # s'"
        then obtain s' where rest: "rest = NL # s'" ..
        with s Cons have e: "s = (w1 @ CHR ''-'' # w2 @ DQ # g @ [DQ]) @ NL # s'" by simp
        then have "length s' < length s" by simp
        moreover from less.prems have "stable_lines s'"
          by (subst (asm) e) (simp only: stable_lines_append)
        ultimately have "stable_lines (sub_list_items True s')" using less.hyps by blast
        with st show ?thesis
          by (simp only: out rest sub_list_items_False stable_lines_append simp_thms if_True)
      qed
    qed
  qed
qed

text \<open>
  C10. \<open>repair_yaml_content\<close> is idempotent. A repaired text has no three dashes in a row
  and no tab, so the two replacements leave it as it is; each of its lines either was
  left alone by the loop that infers keys, or got its colon there, or is a rewritten list
  item, and the loop changes none of them; and the substitution of quoted list items
  finds in its own output exactly the items it wrote, and writes them again.
\<close>

theorem repair_yaml_content_idempotent:
  "repair_yaml_content (repair_yaml_content content) = repair_yaml_content content"
proof -
  define c1 where "c1 = replace ''---'' '''' content"
  define c2 where "c2 = replace [TAB] ''  '' c1"
  define c3 where "c3 = repair_lines c2"
  define c4 where "c4 = sub_list_items True c3"
  have r: "repair_yaml_content content = c4"
    by (simp add: repair_yaml_content_def c1_def c2_def c3_def c4_def)
  have "dash_free 0 c1" unfolding c1_def using replace_separator_dash_free [of content] by simp
  then have "dash_free 0 c2" unfolding c2_def by (rule replace_tab_dash_free)
  then have "dash_free 0 c3" unfolding c3_def by (rule repair_lines_dash_free)
  then have "dash_free 0 c4" unfolding c4_def by (rule sub_list_items_dash_free)
  then have 1: "replace ''---'' '''' c4 = c4" by (rule replace_separator_id)
  have "TAB \<notin> set c2" unfolding c2_def by (rule replace_tab_no_tab)
  then have "TAB \<notin> set c3" unfolding c3_def by (rule repair_lines_no_tab)
  then have "TAB \<notin> set c4" unfolding c4_def by (rule sub_list_items_no_tab)
  then have 2: "replace [TAB] ''  '' c4 = c4" by (rule replace_tab_id)
  have "stable_lines c3"
    unfolding c3_def stable_lines_def list_all_iff using repair_lines_stable by blast
  then have "stable_lines c4" unfolding c4_def by (rule sub_list_items_stable_lines)
  then have 3: "repair_lines c4 = c4"
    unfolding stable_lines_def list_all_iff by (rule repair_lines_id)
  have 4: "sub_list_items True c4 = c4" unfolding c4_def by (rule sub_list_items_idem)
  have "repair_yaml_content c4 = c4"
    by (simp add: repair_yaml_content_def 1 2 3 4)
  then show ?thesis by (simp only: r)
qed

lemma repair_yaml_content_sample:
  "repair_yaml_content
     (''---'' @ [NL] @ ''name'' @ [NL] @ [TAB] @ ''-'' @ [DQ] @ ''hi'' @ [DQ]) =
   [NL] @ ''name:'' @ [NL] @ ''  - '' @ [DQ] @ ''hi'' @ [DQ]"
  by code_simp

theorem repair_yaml_content_idempotent_witness:
  "repair_yaml_content
     (repair_yaml_content
        (''---'' @ [NL] @ ''name'' @ [NL] @ [TAB] @ ''-'' @ [DQ] @ ''hi'' @ [DQ])) =
   [NL] @ ''name:'' @ [NL] @ ''  - '' @ [DQ] @ ''hi'' @ [DQ]"
  using repair_yaml_content_idempotent
          [of "''---'' @ [NL] @ ''name'' @ [NL] @ [TAB] @ ''-'' @ [DQ] @ ''hi'' @ [DQ]"]
  by (simp only: repair_yaml_content_sample)


end
